theory Spec2Isabelle
  imports Main "HOL-Library.Sublist"
begin

section \<open>Python string primitives used by the scripts\<close>

text \<open>
  Python \<open>str\<close> values are modelled as \<open>string\<close> (lists of characters).
  \<open>find_sub sub text\<close> is \<open>text.find(sub)\<close>: the index of the first
  occurrence of \<open>sub\<close>, \<open>None\<close> standing for Python's \<open>-1\<close>.
\<close>

abbreviation NL :: char where
  "NL \<equiv> CHR 0x0A"

abbreviation CR :: char where
  "CR \<equiv> CHR 0x0D"

fun find_sub :: "string \<Rightarrow> string \<Rightarrow> nat option" where
  "find_sub sub [] = (if sub = [] then Some 0 else None)"
| "find_sub sub (c # cs) =
     (if prefix sub (c # cs) then Some 0 else map_option Suc (find_sub sub cs))"

text \<open>\<open>sub in text\<close>.\<close>

definition contains_sub :: "string \<Rightarrow> string \<Rightarrow> bool" where
  "contains_sub sub text = (find_sub sub text \<noteq> None)"

text \<open>
  \<open>text.split(sep, 1)\<close> for a non-empty separator: one element when the separator does
  not occur, otherwise the text before and the text after its first occurrence.
  (Python raises \<open>ValueError\<close> on an empty separator; both separators of the source are
  non-empty literals.)
\<close>

definition split1 :: "string \<Rightarrow> string \<Rightarrow> string list" where
  "split1 sep text =
     (case find_sub sep text of
        None \<Rightarrow> [text]
      | Some i \<Rightarrow> [take i text, drop (i + length sep) text])"

text \<open>\<open>s.lstrip("\n")\<close> and \<open>s.endswith("\n")\<close>.\<close>

definition lstrip_nl :: "string \<Rightarrow> string" where
  "lstrip_nl s = dropWhile (\<lambda>c. c = NL) s"

definition endswith_nl :: "string \<Rightarrow> bool" where
  "endswith_nl s = (s \<noteq> [] \<and> last s = NL)"

section \<open>setup_mise.py: the managed block of the Fish configuration\<close>

definition MISE_BLOCK_BEGIN :: string where
  "MISE_BLOCK_BEGIN = ''# >>> MISE INIT - managed by setup_mise.py''"

definition MISE_BLOCK_END :: string where
  "MISE_BLOCK_END = ''# <<< MISE INIT - managed by setup_mise.py''"

definition MISE_BLOCK :: string where
  "MISE_BLOCK =
     MISE_BLOCK_BEGIN @ [NL] @ ''if type -q mise'' @ [NL] @
     ''    eval (mise env fish)'' @ [NL] @ ''end'' @ [NL] @ MISE_BLOCK_END @ [NL]"

text \<open>
  \<open>Path.read_text()\<close> opens the file in text mode with universal newlines: the text it
  returns has every \<open>CR LF\<close> pair and every remaining \<open>CR\<close> of the file replaced by one
  \<open>LF\<close>. Writing (\<open>write_text\<close>, and \<open>write\<close> on the file opened for appending) stores
  the characters as they are, the line separator of the platform of the scripts being
  \<open>LF\<close>. The characters of the model are the bytes of the file; a file that does not
  decode makes \<open>read_text\<close> raise and is not modelled.
\<close>

fun universal_newlines :: "string \<Rightarrow> string" where
  "universal_newlines [] = []"
| "universal_newlines [c] = (if c = CR then [NL] else [c])"
| "universal_newlines (c # d # cs) =
     (if c = CR then
        (if d = NL then NL # universal_newlines cs else NL # universal_newlines (d # cs))
      else c # universal_newlines (d # cs))"

definition read_text :: "string \<Rightarrow> string" where
  "read_text content = universal_newlines content"

text \<open>
  \<open>update_fish_config\<close>: the argument is the content of the configuration file before
  the call (\<open>None\<close> when \<open>config_path.exists()\<close> is false), the result is the content of
  the file after the call. The branch that replaces the block writes the whole file anew
  from the text it read; the other branch appends to the file as it is. Creating the
  parent directory and the printed messages are left out; a failing read or write
  raises out of the function and is not modelled.
\<close>

definition update_fish_config :: "string option \<Rightarrow> string" where
  "update_fish_config cfg =
     (case cfg of
        None \<Rightarrow> MISE_BLOCK
      | Some content \<Rightarrow>
          (let text = read_text content in
           if contains_sub MISE_BLOCK_BEGIN text \<and> contains_sub MISE_BLOCK_END text then
             (let pre = hd (split1 MISE_BLOCK_BEGIN text);
                  post = last (split1 MISE_BLOCK_END text)
              in pre @ MISE_BLOCK @ lstrip_nl post)
           else
             content @ (if \<not> endswith_nl text then [NL] else []) @ ([NL] @ MISE_BLOCK)))"

section \<open>The file system seen by the scripts\<close>

text \<open>
  A path is the list of its components below the root (\<open>[]\<close> is \<open>/\<close>); the file system
  is a finite table from paths to entries, so a directory's content is the set of
  entries whose path extends the directory's. Symbolic links hold an absolute target and
  are followed for the last component only: a link met on the way to an entry is not
  followed. The table therefore describes what the operating system finds at a path
  only when none of the directories above the path is a symbolic link (\<open>plain_way\<close>
  below); statements about whole runs assume this of the paths the run consults.
  Permissions are not modelled, so the failures that remain are the structural ones (a
  missing entry, an entry of the wrong kind, an occupied name).
\<close>

type_synonym path = "string list"

datatype entry = File string | Dir | Symlink path

type_synonym filesystem = "(path \<times> entry) list"

datatype error =
    FileNotFoundError
  | FileExistsError
  | IsADirectoryError
  | NotADirectoryError
  | DirectoryNotEmpty
  | InvalidArgument
  | RuntimeError
  | CalledProcessError int
  | SystemExit int

definition lookup :: "filesystem \<Rightarrow> path \<Rightarrow> entry option" where
  "lookup fs p = (if p = [] then Some Dir else map_of fs p)"

text \<open>
  Following the links at the end of a path, at most \<open>n\<close> of them; \<open>None\<close> is the
  operating system's "too many levels of symbolic links".
\<close>

fun resolve_link :: "nat \<Rightarrow> filesystem \<Rightarrow> path \<Rightarrow> path option" where
  "resolve_link 0 fs p =
     (case lookup fs p of Some (Symlink t) \<Rightarrow> None | _ \<Rightarrow> Some p)"
| "resolve_link (Suc n) fs p =
     (case lookup fs p of Some (Symlink t) \<Rightarrow> resolve_link n fs t | _ \<Rightarrow> Some p)"

definition MAXSYMLINKS :: nat where
  "MAXSYMLINKS = 32"

text \<open>\<open>Path.exists()\<close>, \<open>Path.is_symlink()\<close>, \<open>Path.is_dir()\<close>, \<open>Path.resolve()\<close>.\<close>

definition path_exists :: "filesystem \<Rightarrow> path \<Rightarrow> bool" where
  "path_exists fs p =
     (case resolve_link MAXSYMLINKS fs p of None \<Rightarrow> False | Some q \<Rightarrow> lookup fs q \<noteq> None)"

definition is_symlink :: "filesystem \<Rightarrow> path \<Rightarrow> bool" where
  "is_symlink fs p = (case lookup fs p of Some (Symlink t) \<Rightarrow> True | _ \<Rightarrow> False)"

definition is_dir :: "filesystem \<Rightarrow> path \<Rightarrow> bool" where
  "is_dir fs p =
     (case resolve_link MAXSYMLINKS fs p of None \<Rightarrow> False | Some q \<Rightarrow> lookup fs q = Some Dir)"

definition resolve :: "filesystem \<Rightarrow> path \<Rightarrow> error + path" where
  "resolve fs p =
     (case resolve_link MAXSYMLINKS fs p of None \<Rightarrow> Inl RuntimeError | Some q \<Rightarrow> Inr q)"

text \<open>
  No symbolic link on the way to \<open>p\<close>: none of the directories above \<open>p\<close>, from the root
  down to the parent of \<open>p\<close>, is a link.
\<close>

definition plain_way :: "filesystem \<Rightarrow> path \<Rightarrow> bool" where
  "plain_way fs p = list_all (\<lambda>q. \<not> is_symlink fs q) (prefixes (butlast p))"

text \<open>Table updates: binding a path, dropping a path, moving a subtree.\<close>

definition bind :: "path \<Rightarrow> entry \<Rightarrow> filesystem \<Rightarrow> filesystem" where
  "bind p e fs = (p, e) # fs"

definition remove :: "path \<Rightarrow> filesystem \<Rightarrow> filesystem" where
  "remove p fs = filter (\<lambda>(k, e). k \<noteq> p) fs"

definition has_children :: "filesystem \<Rightarrow> path \<Rightarrow> bool" where
  "has_children fs p = list_ex (\<lambda>(k, e). strict_prefix p k) fs"

definition move :: "path \<Rightarrow> path \<Rightarrow> filesystem \<Rightarrow> filesystem" where
  "move a b fs =
     map (\<lambda>(k, e). (if prefix a k then b @ drop (length a) k else k, e))
         (filter (\<lambda>(k, e). \<not> prefix b k) fs)"

text \<open>
  Whether a new entry can be made at \<open>p\<close>: the name must be free and its parent must be
  an existing directory.
\<close>

definition creatable :: "filesystem \<Rightarrow> path \<Rightarrow> error option" where
  "creatable fs p =
     (if lookup fs p \<noteq> None then Some FileExistsError
      else if \<not> path_exists fs (butlast p) then Some FileNotFoundError
      else if \<not> is_dir fs (butlast p) then Some NotADirectoryError
      else None)"

text \<open>
  \<open>Path.unlink()\<close>: removes a file or a link; on a directory the system call fails
  (\<open>IsADirectoryError\<close> on Linux, \<open>PermissionError\<close> on macOS, both \<open>Exception\<close>s).
\<close>

definition unlink :: "filesystem \<Rightarrow> path \<Rightarrow> error + filesystem" where
  "unlink fs p =
     (case lookup fs p of
        None \<Rightarrow> Inl FileNotFoundError
      | Some Dir \<Rightarrow> Inl IsADirectoryError
      | Some _ \<Rightarrow> Inr (remove p fs))"

text \<open>
  \<open>os.rename(a, b)\<close>: moves the entry at \<open>a\<close>, with everything below it, to \<open>b\<close>. An
  existing \<open>b\<close> is replaced when it is a file or a link and \<open>a\<close> is not a directory, or
  when both are directories and \<open>b\<close> is empty.
\<close>

definition os_rename :: "filesystem \<Rightarrow> path \<Rightarrow> path \<Rightarrow> error + filesystem" where
  "os_rename fs a b =
     (case lookup fs a of
        None \<Rightarrow> Inl FileNotFoundError
      | Some e \<Rightarrow>
          if a = b then Inr fs
          else if prefix a b then Inl InvalidArgument
          else if \<not> path_exists fs (butlast b) then Inl FileNotFoundError
          else if \<not> is_dir fs (butlast b) then Inl NotADirectoryError
          else (case lookup fs b of
                  None \<Rightarrow> Inr (move a b fs)
                | Some Dir \<Rightarrow>
                    if e \<noteq> Dir then Inl IsADirectoryError
                    else if has_children fs b then Inl DirectoryNotEmpty
                    else Inr (move a b fs)
                | Some _ \<Rightarrow>
                    if e = Dir then Inl NotADirectoryError else Inr (move a b fs)))"

text \<open>\<open>os.mkdir(p)\<close> and \<open>os.symlink(target, p)\<close>.\<close>

definition os_mkdir :: "filesystem \<Rightarrow> path \<Rightarrow> error + filesystem" where
  "os_mkdir fs p =
     (case creatable fs p of Some e \<Rightarrow> Inl e | None \<Rightarrow> Inr (bind p Dir fs))"

definition os_symlink :: "filesystem \<Rightarrow> path \<Rightarrow> path \<Rightarrow> error + filesystem" where
  "os_symlink fs target p =
     (case creatable fs p of Some e \<Rightarrow> Inl e | None \<Rightarrow> Inr (bind p (Symlink target) fs))"

text \<open>
  \<open>Path.mkdir(parents=True, exist_ok=True)\<close>, as pathlib writes it: try \<open>os.mkdir\<close>; on
  \<open>FileNotFoundError\<close> make the parent the same way and try once more; on any other
  \<open>OSError\<close> succeed exactly when the path is a directory already. The recursion runs
  over the reversed path, whose tail is the parent.
\<close>

definition mkdir_exist_ok :: "filesystem \<Rightarrow> path \<Rightarrow> error + filesystem" where
  "mkdir_exist_ok fs p =
     (case os_mkdir fs p of
        Inr fs' \<Rightarrow> Inr fs'
      | Inl FileNotFoundError \<Rightarrow> Inl FileNotFoundError
      | Inl e \<Rightarrow> if is_dir fs p then Inr fs else Inl e)"

fun mkdir_rev :: "filesystem \<Rightarrow> string list \<Rightarrow> error + filesystem" where
  "mkdir_rev fs [] = Inr fs"
| "mkdir_rev fs (c # rp) =
     (case os_mkdir fs (rev (c # rp)) of
        Inr fs' \<Rightarrow> Inr fs'
      | Inl FileNotFoundError \<Rightarrow>
          (case mkdir_rev fs rp of
             Inl e \<Rightarrow> Inl e
           | Inr fs' \<Rightarrow> mkdir_exist_ok fs' (rev (c # rp)))
      | Inl e \<Rightarrow> if is_dir fs (rev (c # rp)) then Inr fs else Inl e)"

definition mkdir_parents :: "filesystem \<Rightarrow> path \<Rightarrow> error + filesystem" where
  "mkdir_parents fs p = mkdir_rev fs (rev p)"

text \<open>
  \<open>str(path)\<close> for the messages, and the description of an error. Python's \<open>str(e)\<close>
  for an \<open>OSError\<close> also carries the error number in front and the file name behind the
  description; the model keeps the description only, so an \<open>ERROR\<close> line of the model
  is the line the code prints without those two parts.
\<close>

definition str_path :: "path \<Rightarrow> string" where
  "str_path p = (if p = [] then ''/'' else concat (map (\<lambda>c. ''/'' @ c) p))"

fun str_error :: "error \<Rightarrow> string" where
  "str_error FileNotFoundError = ''No such file or directory''"
| "str_error FileExistsError = ''File exists''"
| "str_error IsADirectoryError = ''Is a directory''"
| "str_error NotADirectoryError = ''Not a directory''"
| "str_error DirectoryNotEmpty = ''Directory not empty''"
| "str_error InvalidArgument = ''Invalid argument''"
| "str_error RuntimeError = ''Symlink loop''"
| "str_error (CalledProcessError n) = ''Command returned non-zero exit status''"
| "str_error (SystemExit n) = ''exit''"

section \<open>setup.py: status lines and the command runner\<close>

text \<open>
  \<open>print_status(message, status)\<close> is recorded as the pair of its status and message;
  colours and symbols are left out.
\<close>

datatype status = INFO | SUCCESS | WARNING | ERROR

type_synonym event = "status \<times> string"

text \<open>
  What \<open>subprocess.run\<close> gives for one command: the completed process, or \<open>None\<close>
  when the program cannot be started and \<open>subprocess.run\<close> raises \<open>FileNotFoundError\<close>.
\<close>

record completed =
  returncode :: int
  stdout :: string
  stderr :: string

type_synonym spawn = "completed option"

text \<open>
  \<open>run_command(cmd, description, check)\<close>: the result is \<open>(code, stdout + stderr)\<close>;
  with \<open>check\<close> a non-zero code ends the process through \<open>sys.exit(1)\<close>. An exception of
  \<open>subprocess.run\<close> other than \<open>CalledProcessError\<close> is not caught here.
\<close>

definition run_command ::
  "spawn \<Rightarrow> string \<Rightarrow> string \<Rightarrow> bool \<Rightarrow> (error + int \<times> string) \<times> event list" where
  "run_command sp cmdline description check =
     (let l0 = (if description \<noteq> [] then [(INFO, description)] else []) in
      case sp of
        None \<Rightarrow> (Inl FileNotFoundError, l0)
      | Some result \<Rightarrow>
          if check \<and> returncode result \<noteq> 0 then
            (Inl (SystemExit 1),
             l0 @ (if stderr result \<noteq> []
                   then [(ERROR, ''Command failed: '' @ stderr result)] else [])
                @ [(ERROR, ''Failed to execute: '' @ cmdline)])
          else (Inr (returncode result, stdout result @ stderr result), l0))"

text \<open>\<open>except Exception\<close> catches every error of the model but \<open>SystemExit\<close>.\<close>

fun is_exception :: "error \<Rightarrow> bool" where
  "is_exception (SystemExit n) = False"
| "is_exception e = True"

section \<open>setup.py: create_symlinks\<close>

record link_state =
  st_fs :: filesystem
  success :: bool
  st_log :: "event list"

definition backup_path :: "path \<Rightarrow> path" where
  "backup_path dst =
     (if dst = [] then [''.backup''] else butlast dst @ [last dst @ ''.backup''])"

text \<open>
  The first part of the \<open>try\<close> block, "remove existing symlink or file". The result is
  the file system and the lines printed when the part ends, and the exception that ended
  it, if any.
\<close>

definition remove_existing ::
  "filesystem \<Rightarrow> path \<Rightarrow> filesystem \<times> event list \<times> error option" where
  "remove_existing fs dst =
     (if path_exists fs dst \<or> is_symlink fs dst then
        if is_symlink fs dst then
          (case unlink fs dst of
             Inl e \<Rightarrow> (fs, [], Some e)
           | Inr fs' \<Rightarrow> (fs', [(INFO, ''Replaced existing symlink: '' @ str_path dst)], None))
        else
          (let backup_dst = backup_path dst in
           if \<not> path_exists fs backup_dst then
             (case os_rename fs dst backup_dst of
                Inl e \<Rightarrow> (fs, [], Some e)
              | Inr fs' \<Rightarrow>
                  (fs', [(WARNING, ''Backed up existing config to: '' @ str_path backup_dst)],
                   None))
           else
             (let l = [(INFO, ''Config already backed up at: '' @ str_path backup_dst)] in
              case unlink fs dst of
                Inl e \<Rightarrow> (fs, l, Some e)
              | Inr fs' \<Rightarrow> (fs', l, None)))
      else (fs, [], None))"

text \<open>
  The whole \<open>try\<close> block for one mapping: remove what is there, make the parent
  directory, create the link to the resolved source. (The arrow of the last message is
  written \<open>->\<close>.)
\<close>

definition link_try ::
  "filesystem \<Rightarrow> path \<Rightarrow> path \<Rightarrow> path \<Rightarrow> filesystem \<times> event list \<times> error option" where
  "link_try fs src src_rel dst =
     (case remove_existing fs dst of
        (fs1, l1, Some e) \<Rightarrow> (fs1, l1, Some e)
      | (fs1, l1, None) \<Rightarrow>
          (case mkdir_parents fs1 (butlast dst) of
             Inl e \<Rightarrow> (fs1, l1, Some e)
           | Inr fs2 \<Rightarrow>
               (case resolve fs2 src of
                  Inl e \<Rightarrow> (fs2, l1, Some e)
                | Inr target \<Rightarrow>
                    (case os_symlink fs2 target dst of
                       Inl e \<Rightarrow> (fs2, l1, Some e)
                     | Inr fs3 \<Rightarrow>
                         (fs3,
                          l1 @ [(SUCCESS, ''Symlink created: '' @ last dst @ '' -> ''
                                          @ tl (str_path src_rel))],
                          None)))))"

text \<open>
  The body of the \<open>for\<close> loop, for the mapping \<open>src_rel \<mapsto> dst\<close>. Every error
  that the file-system operations of the \<open>try\<close> block raise is an \<open>Exception\<close>, so
  the \<open>except\<close> clause catches it.
\<close>

definition link_one :: "path \<Rightarrow> path \<times> path \<Rightarrow> link_state \<Rightarrow> link_state" where
  "link_one repo_root m st =
     (let src_rel = fst m; dst = snd m; src = repo_root @ src_rel in
      if \<not> path_exists (st_fs st) src then
        st\<lparr>st_log := st_log st @ [(WARNING, ''Source not found: '' @ str_path src)]\<rparr>
      else
        (case link_try (st_fs st) src src_rel dst of
           (fs', l, None) \<Rightarrow> st\<lparr>st_fs := fs', st_log := st_log st @ l\<rparr>
         | (fs', l, Some e) \<Rightarrow>
             st\<lparr>st_fs := fs',
                success := False,
                st_log := st_log st @ l
                  @ [(ERROR, ''Failed to create symlink '' @ str_path dst @ '': ''
                             @ str_error e)]\<rparr>))"

fun create_symlinks_loop :: "path \<Rightarrow> (path \<times> path) list \<Rightarrow> link_state \<Rightarrow> link_state" where
  "create_symlinks_loop repo_root [] st = st"
| "create_symlinks_loop repo_root (m # ms) st =
     create_symlinks_loop repo_root ms (link_one repo_root m st)"

text \<open>The declared mappings, in the insertion order of the dictionary.\<close>

definition symlinks :: "path \<Rightarrow> (path \<times> path) list" where
  "symlinks home =
     (let config_dir = home @ [''.config''] in
      [([''ghostty''], config_dir @ [''ghostty'']),
       ([''fish''], config_dir @ [''fish'']),
       ([''starship''], config_dir @ [''starship'']),
       ([''nvim''], config_dir @ [''nvim'']),
       ([''brewfile''], config_dir @ [''brewfile'']),
       ([''tmux'', ''tmux.conf''], home @ [''.tmux.conf''])])"

definition create_symlinks :: "path \<Rightarrow> path \<Rightarrow> filesystem \<Rightarrow> link_state" where
  "create_symlinks repo_root home fs =
     create_symlinks_loop repo_root (symlinks home)
       \<lparr>st_fs = fs, success = True, st_log = []\<rparr>"

section \<open>setup.py: the provisioning steps\<close>

text \<open>
  Everything a run asks of the machine outside the file system is a field of \<open>world\<close>:
  the answer of each \<open>check_command_exists\<close> call, the outcome of each external command,
  the \<open>SHELL\<close> variable. A step returns its boolean, or the exception that leaves it,
  together with the status lines it printed.
\<close>

record world =
  home :: path
  repo_root :: path
  disk :: filesystem
  gcc_found :: bool
  xcode_select :: spawn
  gcc_found_after :: bool
  brew_found :: bool
  brew_installer :: spawn
  brew_found_after :: bool
  brew_bundle :: spawn
  env_SHELL :: string
  fish_found :: bool
  which_fish :: spawn
  grep_shells :: spawn
  tee_shells :: spawn
  chsh :: spawn
  verify_found :: "string \<Rightarrow> bool"

type_synonym step_result = "(error + bool) \<times> event list"

definition install_xcode_clt :: "world \<Rightarrow> step_result" where
  "install_xcode_clt w =
     (if gcc_found w then
        (Inr True, [(SUCCESS, ''Xcode Command Line Tools already installed'')])
      else
        (let l0 = [(INFO, ''Installing Xcode Command Line Tools...'')] in
         case run_command (xcode_select w) ''xcode-select --install''
                ''Initializing Xcode CLT installer'' False of
           (Inl e, l) \<Rightarrow> (Inl e, l0 @ l)
         | (Inr (code, output), l) \<Rightarrow>
             if code = 0 then
               (let l1 = l0 @ l @ [(INFO, ''Xcode CLT install initiated. Please complete the installation when prompted.'')] in
                if gcc_found_after w then
                  (Inr True,
                   l1 @ [(SUCCESS, ''Xcode Command Line Tools installed successfully'')])
                else
                  (Inr False,
                   l1 @ [(WARNING, ''Xcode CLT installation could not be verified'')]))
             else if code = 1 then
               (Inr True,
                l0 @ l @ [(SUCCESS, ''Xcode Command Line Tools already installed'')])
             else
               (Inr False,
                l0 @ l @ [(ERROR, ''Failed to install Xcode Command Line Tools'')])))"

text \<open>
  In \<open>install_homebrew\<close> the extension of \<open>PATH\<close> after a successful installer only
  changes what the next \<open>check_command_exists\<close> answers, which is \<open>brew_found_after\<close>.
\<close>

definition install_homebrew :: "world \<Rightarrow> step_result" where
  "install_homebrew w =
     (if brew_found w then (Inr True, [(SUCCESS, ''Homebrew already installed'')])
      else
        (let l0 = [(INFO, ''Installing Homebrew...'')] in
         case run_command (brew_installer w) ''/bin/bash -c install.sh''
                ''Downloading and running Homebrew installer'' False of
           (Inl e, l) \<Rightarrow> (Inl e, l0 @ l)
         | (Inr (code, output), l) \<Rightarrow>
             if code = 0 \<and> brew_found_after w then
               (Inr True, l0 @ l @ [(SUCCESS, ''Homebrew installed successfully'')])
             else
               (Inr False, l0 @ l @ [(ERROR, ''Homebrew installation failed'')])))"

definition create_config_structure ::
  "path \<Rightarrow> filesystem \<Rightarrow> bool \<times> filesystem \<times> event list" where
  "create_config_structure h fs =
     (let config_dir = h @ [''.config''] in
      case mkdir_parents fs config_dir of
        Inr fs' \<Rightarrow>
          (True, fs', [(SUCCESS, ''Config directory ready: '' @ str_path config_dir)])
      | Inl e \<Rightarrow>
          (False, fs,
           [(ERROR, ''Failed to create config directory: '' @ str_error e)]))"

text \<open>
  \<open>install_brewfile\<close>; the \<open>logger.info(output)\<close> of the last branch is not a status
  line and is left out.
\<close>

definition install_brewfile :: "path \<Rightarrow> filesystem \<Rightarrow> spawn \<Rightarrow> step_result" where
  "install_brewfile root fs sp =
     (let brewfile_path = root @ [''brewfile'', ''Brewfile''] in
      if \<not> path_exists fs brewfile_path then
        (Inr False, [(WARNING, ''Brewfile not found at '' @ str_path brewfile_path)])
      else
        (let l0 = [(INFO, ''Installing packages from Brewfile...'')] in
         case run_command sp (''brew bundle install --file '' @ str_path brewfile_path)
                ''Running brew bundle'' False of
           (Inl e, l) \<Rightarrow>
             if is_exception e then
               (Inr False,
                l0 @ l @ [(ERROR, ''Failed to install Brewfile: '' @ str_error e)])
             else (Inl e, l0 @ l)
         | (Inr (code, output), l) \<Rightarrow>
             if code = 0 then
               (Inr True, l0 @ l @ [(SUCCESS, ''Brewfile packages installed successfully'')])
             else if contains_sub ''already satisfied'' output
                     \<or> contains_sub ''is already installed'' output then
               (Inr True,
                l0 @ l @ [(SUCCESS, ''Brewfile processed (some packages already installed)'')])
             else
               (Inr True, l0 @ l @ [(WARNING, ''Brewfile installation had issues'')])))"

text \<open>The \<open>try\<close> block of \<open>setup_fish_shell\<close>, from \<open>chsh\<close> on and as a whole.\<close>

definition change_shell :: "world \<Rightarrow> event list \<Rightarrow> step_result" where
  "change_shell w l0 =
     (case run_command (chsh w) ''chsh -s fish'' ''Setting fish as default shell'' False of
        (Inl e, l) \<Rightarrow> (Inl e, l0 @ l)
      | (Inr (code, output), l) \<Rightarrow>
          if code = 0 then
            (Inr True,
             l0 @ l @ [(SUCCESS, ''Fish shell set as default (will take effect on next login)'')])
          else
            (Inr False, l0 @ l @ [(WARNING, ''Failed to set fish as default shell'')]))"

definition fish_try :: "world \<Rightarrow> step_result" where
  "fish_try w =
     (case which_fish w of
        None \<Rightarrow> (Inl FileNotFoundError, [])
      | Some r \<Rightarrow>
          if returncode r \<noteq> 0 then (Inl (CalledProcessError (returncode r)), [])
          else
            (case grep_shells w of
               None \<Rightarrow> (Inl FileNotFoundError, [])
             | Some g \<Rightarrow>
                 if returncode g \<noteq> 0 then
                   (case run_command (tee_shells w) ''sh -c echo fish | sudo tee -a /etc/shells''
                           ''Adding fish to /etc/shells'' False of
                      (Inl e, l) \<Rightarrow> (Inl e, l)
                    | (Inr (code, output), l) \<Rightarrow>
                        if code \<noteq> 0 then
                          (Inr False, l @ [(WARNING, ''Could not add fish to /etc/shells'')])
                        else change_shell w l)
                 else change_shell w []))"

definition setup_fish_shell :: "world \<Rightarrow> step_result" where
  "setup_fish_shell w =
     (if contains_sub ''fish'' (env_SHELL w) then
        (Inr True, [(SUCCESS, ''Fish shell already set as default'')])
      else if \<not> fish_found w then
        (Inr False,
         [(WARNING, ''Fish shell not installed (should be installed via Brewfile)'')])
      else
        (case fish_try w of
           (Inr b, l) \<Rightarrow> (Inr b, l)
         | (Inl e, l) \<Rightarrow>
             if is_exception e then
               (Inr False, l @ [(WARNING, ''Failed to setup fish shell: '' @ str_error e)])
             else (Inl e, l)))"

text \<open>\<open>verify_installation\<close>: the checks in the order of the dictionary.\<close>

definition checks :: "(string \<times> string) list" where
  "checks = [(''Homebrew'', ''brew''), (''Fish'', ''fish''), (''Git'', ''git''),
             (''Starship'', ''starship''), (''Neovim'', ''nvim'')]"

fun verify_loop ::
  "(string \<Rightarrow> bool) \<Rightarrow> (string \<times> string) list \<Rightarrow> bool \<Rightarrow> event list \<Rightarrow> bool \<times> event list" where
  "verify_loop found [] all_good l = (all_good, l)"
| "verify_loop found ((name, cmd) # cs) all_good l =
     (if found cmd then verify_loop found cs all_good (l @ [(SUCCESS, name @ '' is installed'')])
      else verify_loop found cs False (l @ [(WARNING, name @ '' is NOT installed'')]))"

definition verify_installation :: "world \<Rightarrow> step_result" where
  "verify_installation w =
     (case verify_loop (verify_found w) checks True [] of (all_good, l) \<Rightarrow> (Inr all_good, l))"

section \<open>setup.py: main\<close>

text \<open>
  A run of \<open>main\<close> is the list of the steps it called, each with what the step returned
  and the status lines printed by the step and by \<open>main\<close> in reaction to it, and the exit
  code of the process. An exception that leaves a step is caught nowhere: the
  interpreter ends with code 1 (or with the code of \<open>sys.exit\<close>).
\<close>

datatype step = XcodeCLT | Homebrew | ConfigStructure | Symlinks | Brewfile | FishShell | Verify

type_synonym run = "step \<times> (error + bool) \<times> event list"

fun exit_of :: "error \<Rightarrow> int" where
  "exit_of (SystemExit n) = n"
| "exit_of e = 1"

definition main_tail :: "world \<Rightarrow> filesystem \<Rightarrow> run list \<Rightarrow> int \<times> run list" where
  "main_tail w fs3 rs =
     (let st = create_symlinks (repo_root w) (home w) fs3;
          r4 = (Symlinks, Inr (success st),
                st_log st @ (if \<not> success st
                   then [(WARNING, ''Some symlinks failed to create, but continuing...'')]
                   else []))
      in case install_brewfile (repo_root w) (st_fs st) (brew_bundle w) of
           (Inl e, l5) \<Rightarrow> (exit_of e, rs @ [r4, (Brewfile, Inl e, l5)])
         | (Inr ok5, l5) \<Rightarrow>
             (let r5 = (Brewfile, Inr ok5,
                        l5 @ (if \<not> ok5
                          then [(WARNING, ''Brewfile installation had issues, but continuing...'')]
                          else []))
              in case setup_fish_shell w of
                   (Inl e, l6) \<Rightarrow> (exit_of e, rs @ [r4, r5, (FishShell, Inl e, l6)])
                 | (Inr ok6, l6) \<Rightarrow>
                     (case verify_installation w of
                        (Inl e, l7) \<Rightarrow>
                          (exit_of e,
                           rs @ [r4, r5, (FishShell, Inr ok6, l6), (Verify, Inl e, l7)])
                      | (Inr ok7, l7) \<Rightarrow>
                          (0, rs @ [r4, r5, (FishShell, Inr ok6, l6),
                                    (Verify, Inr ok7, l7)]))))"

definition main :: "world \<Rightarrow> int \<times> run list" where
  "main w =
     (case install_xcode_clt w of
        (Inl e, l1) \<Rightarrow> (exit_of e, [(XcodeCLT, Inl e, l1)])
      | (Inr ok1, l1) \<Rightarrow>
          if \<not> ok1 then
            (1, [(XcodeCLT, Inr ok1,
                  l1 @ [(ERROR, ''Xcode CLT installation is required. Exiting.'')])])
          else
            (case install_homebrew w of
               (Inl e, l2) \<Rightarrow>
                 (exit_of e, [(XcodeCLT, Inr ok1, l1), (Homebrew, Inl e, l2)])
             | (Inr ok2, l2) \<Rightarrow>
                 if \<not> ok2 then
                   (1, [(XcodeCLT, Inr ok1, l1),
                        (Homebrew, Inr ok2,
                         l2 @ [(ERROR, ''Homebrew installation is required. Exiting.'')])])
                 else
                   (case create_config_structure (home w) (disk w) of
                      (ok3, fs3, l3) \<Rightarrow>
                        if \<not> ok3 then
                          (1, [(XcodeCLT, Inr ok1, l1), (Homebrew, Inr ok2, l2),
                               (ConfigStructure, Inr ok3,
                                l3 @ [(ERROR, ''Failed to create config directory. Exiting.'')])])
                        else
                          main_tail w fs3
                            [(XcodeCLT, Inr ok1, l1), (Homebrew, Inr ok2, l2),
                             (ConfigStructure, Inr ok3, l3)])))"

section \<open>setup_mise.py: main\<close>

text \<open>
  The exit code of \<open>setup_mise.py\<close> and the configuration file it leaves. The run is
  given the \<open>--yes\<close> flag, the answer typed at the prompt, whether \<open>mise\<close> is on the
  \<open>PATH\<close>, the configuration file and the result of \<open>verify_bins_in_fish\<close>; the
  \<open>mise install\<close> calls do not influence either result. Falling off the end of the
  script is exit code 0.
\<close>

record mise_world =
  arg_yes :: bool
  answer :: string
  mise_available :: bool
  config_file :: "string option"
  verify_ok :: bool

definition mise_main :: "mise_world \<Rightarrow> int \<times> string option" where
  "mise_main w =
     (if \<not> arg_yes w \<and> \<not> (answer w = ''y'' \<or> answer w = ''Y'') then (0, config_file w)
      else if \<not> mise_available w then (1, config_file w)
      else
        (let cfg = Some (update_fish_config (config_file w)) in
         if \<not> verify_ok w then (2, cfg) else (0, cfg)))"

section \<open>setup_astronvim.py: backing up the Neovim configuration\<close>

text \<open>
  \<open>backup_existing(nvim)\<close>; \<open>ts\<close> is the time of the call as \<open>strftime\<close> formats it.
\<close>

definition backup_existing :: "filesystem \<Rightarrow> path \<Rightarrow> string \<Rightarrow> error + filesystem" where
  "backup_existing fs nvim ts =
     (if path_exists fs nvim then
        os_rename fs nvim (butlast nvim @ [last nvim @ ''.backup.'' @ ts])
      else Inr fs)"

text \<open>
  \<open>clone_astronvim(nvim)\<close> runs \<open>git clone\<close> through \<open>check_call\<close>; what the command does
  to the file system is the parameter \<open>git\<close>. A run of the script is the backup followed
  by the clone; the copy of the user configuration that follows only writes below
  \<open>nvim/lua/user\<close> and is left out.
\<close>

type_synonym git_clone = "filesystem \<Rightarrow> path \<Rightarrow> error + filesystem"

definition clone_astronvim :: "git_clone \<Rightarrow> filesystem \<Rightarrow> path \<Rightarrow> error + filesystem" where
  "clone_astronvim git fs nvim = git fs nvim"

definition astronvim_run ::
  "git_clone \<Rightarrow> string \<Rightarrow> path \<Rightarrow> filesystem \<Rightarrow> error + filesystem" where
  "astronvim_run git ts nvim fs =
     (case backup_existing fs nvim ts of
        Inl e \<Rightarrow> Inl e
      | Inr fs1 \<Rightarrow> clone_astronvim git fs1 nvim)"

section \<open>A sample machine\<close>

text \<open>
  A home directory with the repository checked out below it, and a machine on which the
  compiler, Homebrew and Fish are present; used to evaluate the scripts.
\<close>

definition example_disk :: filesystem where
  "example_disk =
     [([''Users''], Dir), ([''Users'', ''me''], Dir),
      ([''Users'', ''me'', ''dotfiles''], Dir),
      ([''Users'', ''me'', ''dotfiles'', ''fish''], Dir),
      ([''Users'', ''me'', ''dotfiles'', ''fish'', ''config.fish''], File ''set -gx EDITOR nvim''),
      ([''Users'', ''me'', ''dotfiles'', ''brewfile''], Dir),
      ([''Users'', ''me'', ''dotfiles'', ''brewfile'', ''Brewfile''], File ''brew fish'')]"

definition finished :: "int \<Rightarrow> completed" where
  "finished n = \<lparr>returncode = n, stdout = [], stderr = []\<rparr>"

definition example_world :: world where
  "example_world =
     \<lparr>home = [''Users'', ''me''], repo_root = [''Users'', ''me'', ''dotfiles''],
      disk = example_disk,
      gcc_found = True, xcode_select = Some (finished 1), gcc_found_after = True,
      brew_found = True, brew_installer = Some (finished 0), brew_found_after = True,
      brew_bundle = Some (finished 0),
      env_SHELL = ''/opt/homebrew/bin/fish'', fish_found = True,
      which_fish = Some (finished 0), grep_shells = Some (finished 0),
      tee_shells = Some (finished 0), chsh = Some (finished 0),
      verify_found = (\<lambda>cmd. cmd \<noteq> ''starship'')\<rparr>"


text \<open>
  The same machine with a Fish configuration of the user's own in the place of the link,
  once without and once with a backup beside it.
\<close>

definition foreign_disk :: filesystem where
  "foreign_disk =
     [([''Users'', ''me'', ''.config''], Dir),
      ([''Users'', ''me'', ''.config'', ''fish''], Dir),
      ([''Users'', ''me'', ''.config'', ''fish'', ''config.fish''], File ''set fish_greeting'')]
     @ example_disk"

definition occupied_disk :: filesystem where
  "occupied_disk = ([''Users'', ''me'', ''.config'', ''fish.backup''], Dir) # foreign_disk"

text \<open>
  A Neovim configuration of the user's own, and a \<open>git clone\<close> that creates the
  destination directory with one file in it (and fails when the destination exists).
\<close>

definition nvim_disk :: filesystem where
  "nvim_disk =
     [([''Users''], Dir), ([''Users'', ''me''], Dir), ([''Users'', ''me'', ''.config''], Dir),
      ([''Users'', ''me'', ''.config'', ''nvim''], Dir),
      ([''Users'', ''me'', ''.config'', ''nvim'', ''init.lua''], File ''my own setup'')]"

definition sample_clone :: git_clone where
  "sample_clone fs p =
     (case os_mkdir fs p of
        Inl e \<Rightarrow> Inl (CalledProcessError 128)
      | Inr fs' \<Rightarrow> Inr (bind (p @ [''init.lua'']) (File ''AstroNvim'') fs'))"



section \<open>Substring search: first occurrences\<close>

lemma prefix_append_long: "length s \<le> length u \<Longrightarrow> prefix s (u @ v) = prefix s u"
  by (auto simp: prefix_append)

lemma find_sub_Nil [simp]: "find_sub [] r = Some 0"
  by (cases r) simp_all

lemma find_sub_bound: "find_sub s xs = Some i \<Longrightarrow> i + length s \<le> length xs"
proof (induction xs arbitrary: i)
  case Nil then show ?case by (simp split: if_splits)
next
  case (Cons c cs)
  then show ?case by (auto split: if_splits dest: prefix_length_le)
qed

lemma find_sub_decomp:
  "find_sub s xs = Some i \<Longrightarrow> xs = take i xs @ s @ drop (i + length s) xs"
proof (induction xs arbitrary: i)
  case Nil then show ?case by (simp split: if_splits)
next
  case (Cons c cs)
  show ?case
  proof (cases "prefix s (c # cs)")
    case True
    with Cons.prems have "i = 0" by simp
    with True show ?thesis by (auto simp: prefix_def)
  next
    case False
    with Cons.prems obtain j where j: "find_sub s cs = Some j" "i = Suc j" by auto
    from Cons.IH[OF j(1)] j(2) show ?thesis by simp
  qed
qed

lemma find_sub_stable:
  "find_sub s xs = Some i \<Longrightarrow> find_sub s (take (i + length s) xs @ r) = Some i"
proof (induction xs arbitrary: i)
  case Nil then show ?case by (simp split: if_splits)
next
  case (Cons c cs)
  show ?case
  proof (cases "prefix s (c # cs)")
    case True
    with Cons.prems have i: "i = 0" by simp
    from True have "take (length s) (c # cs) = s" by (auto simp: prefix_def)
    hence "prefix s (take (length s) (c # cs) @ r)" by simp
    moreover from True have "s = [] \<or> take (length s) (c # cs) \<noteq> []" by auto
    ultimately show ?thesis using i by (cases "take (length s) (c # cs) @ r") auto
  next
    case False
    with Cons.prems obtain j where j: "find_sub s cs = Some j" "i = Suc j" by auto
    have le: "length s \<le> length (c # take (j + length s) cs)" 
      using find_sub_bound[OF j(1)] by simp
    have "\<not> prefix s (c # take (j + length s) cs @ r)"
    proof
      assume "prefix s (c # take (j + length s) cs @ r)"
      hence "prefix s ((c # take (j + length s) cs) @ r)" by simp
      hence "prefix s (c # take (j + length s) cs)" using prefix_append_long[OF le] by blast
      moreover have "prefix (c # take (j + length s) cs) (c # cs)" by (simp add: take_is_prefix)
      ultimately have "prefix s (c # cs)" by (rule prefix_order.trans)
      with False show False by simp
    qed
    with Cons.IH[OF j(1)] j(2) show ?thesis by simp
  qed
qed

lemma find_sub_no_straddle:
  assumes "ys \<noteq> []" "hd ys \<notin> set (tl s)" "find_sub s xs = None"
  shows "find_sub s (xs @ ys) = map_option (\<lambda>i. length xs + i) (find_sub s ys)"
  using assms(3)
proof (induction xs)
  case Nil
  then show ?case by (simp add: option.map_ident)
next
  case (Cons c cs)
  from Cons.prems have np: "\<not> prefix s (c # cs)" and n: "find_sub s cs = None"
    by (auto split: if_splits)
  have "\<not> prefix s (c # cs @ ys)"
  proof
    assume "prefix s (c # cs @ ys)"
    hence "prefix s ((c # cs) @ ys)" by simp
    with np obtain t where t: "s = (c # cs) @ t" "prefix t ys"
      unfolding prefix_append by blast
    from t(1) np have "t \<noteq> []" by auto
    with t(2) assms(1) have "hd ys = hd t" by (auto simp: prefix_def)
    with t(1) \<open>t \<noteq> []\<close> have "hd ys \<in> set (tl s)" by simp
    with assms(2) show False by simp
  qed
  with Cons.IH[OF n] show ?case
    by (simp add: option.map_comp comp_def)
qed


lemmas mise_defs = MISE_BLOCK_def MISE_BLOCK_BEGIN_def MISE_BLOCK_END_def

lemma find_begin_in_block: "find_sub MISE_BLOCK_BEGIN (MISE_BLOCK @ r) = Some 0"
  by (simp add: mise_defs)

lemma find_end_in_block: "find_sub MISE_BLOCK_END (MISE_BLOCK @ r) = Some 88"
  by (simp add: mise_defs)

lemma block_lengths:
  "length MISE_BLOCK_BEGIN = 42" "length MISE_BLOCK_END = 42" "length MISE_BLOCK = 131"
  by (simp_all add: mise_defs)

lemma block_tail: "drop 130 MISE_BLOCK = [NL]"
  by (simp add: mise_defs)

lemma block_head:
  "MISE_BLOCK @ r \<noteq> []" "hd (MISE_BLOCK @ r) \<notin> set (tl MISE_BLOCK_END)"
  by (simp_all add: mise_defs)

lemma nl_not_in_marker_tails:
  "NL \<notin> set (tl MISE_BLOCK_BEGIN)" "NL \<notin> set (tl MISE_BLOCK_END)"
  by (simp_all add: mise_defs)

lemma block_splits: "\<exists>k. MISE_BLOCK = MISE_BLOCK_BEGIN @ k"
  by (simp add: MISE_BLOCK_def)

lemma universal_newlines_Nil [simp]: "universal_newlines t = [] \<longleftrightarrow> t = []"
  by (induction t rule: universal_newlines.induct) auto

lemma universal_newlines_plain: "CR \<notin> set t \<Longrightarrow> universal_newlines t = t"
  by (induction t rule: universal_newlines.induct) auto

lemma universal_newlines_no_cr: "CR \<notin> set (universal_newlines t)"
  by (induction t rule: universal_newlines.induct) auto

lemma universal_newlines_endswith:
  "endswith_nl (universal_newlines t) \<longleftrightarrow> t \<noteq> [] \<and> (last t = NL \<or> last t = CR)"
  by (induction t rule: universal_newlines.induct) (auto simp: endswith_nl_def)

lemma block_no_cr: "CR \<notin> set MISE_BLOCK"
  by (simp add: mise_defs)

lemma update_plain:
  "CR \<notin> set t \<Longrightarrow>
   update_fish_config (Some t) =
     (if contains_sub MISE_BLOCK_BEGIN t \<and> contains_sub MISE_BLOCK_END t then
        hd (split1 MISE_BLOCK_BEGIN t) @ MISE_BLOCK @ lstrip_nl (last (split1 MISE_BLOCK_END t))
      else t @ (if \<not> endswith_nl t then [NL] else []) @ ([NL] @ MISE_BLOCK))"
  by (simp add: update_fish_config_def read_text_def universal_newlines_plain Let_def)

lemma split1_last_no_cr: "CR \<notin> set t \<Longrightarrow> CR \<notin> set (last (split1 s t))"
  by (auto simp: split1_def split: option.splits dest: in_set_dropD)

lemma update_replace_fixed:
  assumes b: "find_sub MISE_BLOCK_BEGIN x = Some i"
    and e: "find_sub MISE_BLOCK_END (take i x) = None"
    and crx: "CR \<notin> set x" and crp: "CR \<notin> set p"
  shows "update_fish_config (Some (take i x @ MISE_BLOCK @ lstrip_nl p))
         = take i x @ MISE_BLOCK @ lstrip_nl p"
proof -
  let ?y = "take i x @ MISE_BLOCK @ lstrip_nl p"
  have cr: "CR \<notin> set ?y"
    using crx crp block_no_cr
    by (auto simp: lstrip_nl_def dest: in_set_takeD set_dropWhileD)
  from find_sub_bound[OF b] have ile: "i \<le> length x" by simp
  hence len: "length (take i x) = i" by simp
  obtain k where k: "MISE_BLOCK = MISE_BLOCK_BEGIN @ k" using block_splits by blast
  from find_sub_decomp[OF b] have "take (i + length MISE_BLOCK_BEGIN) x = take i x @ MISE_BLOCK_BEGIN"
    by (metis append.assoc append_eq_conv_conj len length_append)
  with find_sub_stable[OF b, of "k @ lstrip_nl p"]
  have "find_sub MISE_BLOCK_BEGIN (take i x @ (MISE_BLOCK_BEGIN @ k) @ lstrip_nl p) = Some i"
    by simp
  hence fb: "find_sub MISE_BLOCK_BEGIN ?y = Some i" by (simp only: k[symmetric])
  have "find_sub MISE_BLOCK_END (take i x @ (MISE_BLOCK @ lstrip_nl p))
        = map_option (\<lambda>n. length (take i x) + n) (find_sub MISE_BLOCK_END (MISE_BLOCK @ lstrip_nl p))"
    by (rule find_sub_no_straddle[OF block_head e])
  hence fe: "find_sub MISE_BLOCK_END ?y = Some (i + 88)"
    using ile by (simp add: find_end_in_block min_absorb2)
  have pre: "take i ?y = take i x" using ile by (simp add: min_absorb2)
  have "drop (i + 88 + 42) ?y = drop 130 (MISE_BLOCK @ lstrip_nl p)"
    using ile by (simp add: min_absorb2)
  also have "\<dots> = NL # lstrip_nl p" using block_tail by (simp add: block_lengths)
  finally have post: "drop (i + 88 + 42) ?y = NL # lstrip_nl p" .
  have "lstrip_nl (NL # lstrip_nl p) = lstrip_nl p"
    by (simp add: lstrip_nl_def)
  with update_plain[OF cr] fb fe pre post show ?thesis
    by (simp add: contains_sub_def split1_def block_lengths)
qed

lemma update_append_fixed:
  assumes b: "find_sub MISE_BLOCK_BEGIN x = None"
    and e: "find_sub MISE_BLOCK_END x = None"
    and z: "z = [] \<or> z = [NL]"
    and crx: "CR \<notin> set x"
  shows "update_fish_config (Some (x @ z @ [NL] @ MISE_BLOCK)) = x @ z @ [NL] @ MISE_BLOCK"
proof -
  let ?ys = "z @ [NL] @ MISE_BLOCK"
  have cr: "CR \<notin> set (x @ ?ys)" using crx z block_no_cr by auto
  have hd: "?ys \<noteq> []" "hd ?ys \<notin> set (tl MISE_BLOCK_BEGIN)" "hd ?ys \<notin> set (tl MISE_BLOCK_END)"
    using z nl_not_in_marker_tails by auto
  have fbs: "find_sub MISE_BLOCK_BEGIN ?ys = Some (length z + 1)"
    using z by (auto simp: mise_defs)
  have fes: "find_sub MISE_BLOCK_END ?ys = Some (length z + 89)"
    using z by (auto simp: mise_defs)
  have fb: "find_sub MISE_BLOCK_BEGIN (x @ ?ys) = Some (length x + (length z + 1))"
    using find_sub_no_straddle[OF hd(1,2) b] fbs by simp
  have fe: "find_sub MISE_BLOCK_END (x @ ?ys) = Some (length x + (length z + 89))"
    using find_sub_no_straddle[OF hd(1,3) e] fes by simp
  have pre: "take (length x + (length z + 1)) (x @ ?ys) = x @ z @ [NL]" by simp
  have "drop (length x + (length z + 89) + 42) (x @ ?ys) = drop 130 MISE_BLOCK"
    by simp
  hence post: "drop (length x + (length z + 89) + 42) (x @ ?ys) = [NL]"
    using block_tail by simp
  from update_plain[OF cr] fb fe pre post show ?thesis
    by (simp add: contains_sub_def split1_def block_lengths lstrip_nl_def)
qed

section \<open>Properties of the text-block upsert\<close>

text \<open>
  C3 (as stated: the upsert is idempotent for every host-file content). The claim fails
  when the file holds a stray end marker: the first call appends the block, the second
  call pairs the begin marker of the appended block with the stray end marker and writes
  the block a second time. It also fails for a file without markers that holds a
  carriage return: the first call appends to the file as it is, the second call rewrites
  the whole file from the text it read, in which \<open>CR LF\<close> has become \<open>LF\<close>.
\<close>

theorem update_fish_config_idempotent_counterexample:
  "update_fish_config (Some (update_fish_config (Some MISE_BLOCK_END)))
     \<noteq> update_fish_config (Some MISE_BLOCK_END)
   \<and> update_fish_config (Some (update_fish_config (Some (''a'' @ [CR, NL] @ ''b''))))
     \<noteq> update_fish_config (Some (''a'' @ [CR, NL] @ ''b''))"
  by (simp add: update_fish_config_def read_text_def mise_defs contains_sub_def split1_def
      lstrip_nl_def endswith_nl_def)

text \<open>
  C3 (amended): the upsert is idempotent whenever the host file is absent, or contains
  neither marker and no carriage return, or contains (in the text as read, with \<open>CR LF\<close>
  and \<open>CR\<close> taken as \<open>LF\<close>) both markers with no end marker before the first begin
  marker: the content after the second application equals the content after the first.
\<close>

theorem update_fish_config_idempotent:
  assumes "cfg = None
     \<or> (\<exists>t. cfg = Some t \<and> CR \<notin> set t \<and> \<not> contains_sub MISE_BLOCK_BEGIN t
                \<and> \<not> contains_sub MISE_BLOCK_END t)
     \<or> (\<exists>t. cfg = Some t \<and> contains_sub MISE_BLOCK_BEGIN (read_text t)
                \<and> contains_sub MISE_BLOCK_END (read_text t)
                \<and> \<not> contains_sub MISE_BLOCK_END (hd (split1 MISE_BLOCK_BEGIN (read_text t))))"
  shows "update_fish_config (Some (update_fish_config cfg)) = update_fish_config cfg"
proof -
  consider (absent) "cfg = None"
    | (append) t where "cfg = Some t" "CR \<notin> set t" "\<not> contains_sub MISE_BLOCK_BEGIN t"
        "\<not> contains_sub MISE_BLOCK_END t"
    | (replace) t where "cfg = Some t" "contains_sub MISE_BLOCK_BEGIN (read_text t)"
        "contains_sub MISE_BLOCK_END (read_text t)"
        "\<not> contains_sub MISE_BLOCK_END (hd (split1 MISE_BLOCK_BEGIN (read_text t)))"
    using assms by blast
  then show ?thesis
  proof cases
    case absent
    have "update_fish_config (Some MISE_BLOCK) = MISE_BLOCK"
      by (simp add: update_plain[OF block_no_cr])
         (simp add: mise_defs contains_sub_def split1_def lstrip_nl_def)
    with absent show ?thesis by (simp add: update_fish_config_def)
  next
    case append
    hence n: "find_sub MISE_BLOCK_BEGIN t = None" "find_sub MISE_BLOCK_END t = None"
      by (simp_all add: contains_sub_def)
    define z where "z = (if \<not> endswith_nl t then [NL] else [])"
    have u: "update_fish_config cfg = t @ z @ [NL] @ MISE_BLOCK"
      using append by (simp add: update_plain z_def)
    have "z = [] \<or> z = [NL]" by (simp add: z_def)
    from update_append_fixed[OF n this append(2)] u show ?thesis by simp
  next
    case replace
    define x where "x = read_text t"
    have crx: "CR \<notin> set x" by (simp add: x_def read_text_def universal_newlines_no_cr)
    from replace obtain i where i: "find_sub MISE_BLOCK_BEGIN x = Some i"
      by (auto simp: contains_sub_def x_def)
    with replace(4) have e: "find_sub MISE_BLOCK_END (take i x) = None"
      by (simp add: contains_sub_def split1_def x_def)
    have u: "update_fish_config cfg
             = take i x @ MISE_BLOCK @ lstrip_nl (last (split1 MISE_BLOCK_END x))"
      using replace i by (simp add: update_fish_config_def split1_def x_def Let_def)
    from update_replace_fixed[OF i e crx split1_last_no_cr[OF crx]] u show ?thesis by simp
  qed
qed

theorem update_fish_config_idempotent_witness:
  "CR \<notin> set ''set -gx EDITOR nvim''
   \<and> \<not> contains_sub MISE_BLOCK_BEGIN ''set -gx EDITOR nvim''
   \<and> \<not> contains_sub MISE_BLOCK_END ''set -gx EDITOR nvim''
   \<and> update_fish_config (Some (update_fish_config (Some ''set -gx EDITOR nvim'')))
       = update_fish_config (Some ''set -gx EDITOR nvim'')"
proof -
  have h: "CR \<notin> set ''set -gx EDITOR nvim''"
          "\<not> contains_sub MISE_BLOCK_BEGIN ''set -gx EDITOR nvim''"
          "\<not> contains_sub MISE_BLOCK_END ''set -gx EDITOR nvim''"
    by (simp_all add: contains_sub_def mise_defs)
  with update_fish_config_idempotent [of "Some ''set -gx EDITOR nvim''"] show ?thesis
    by blast
qed

text \<open>
  C6 (as stated: whenever both markers occur, exactly the range from the begin marker
  through the end marker is replaced and everything around it is kept). The claim fails
  when an end marker precedes the begin marker: for the content END, BEGIN, END the code
  takes the text before the first begin marker and the text after the first end marker,
  so the old BEGIN..END range survives behind the new block instead of being replaced.
\<close>

theorem update_fish_config_replace_counterexample:
  "contains_sub MISE_BLOCK_BEGIN (MISE_BLOCK_END @ MISE_BLOCK_BEGIN @ MISE_BLOCK_END)
   \<and> contains_sub MISE_BLOCK_END (MISE_BLOCK_END @ MISE_BLOCK_BEGIN @ MISE_BLOCK_END)
   \<and> update_fish_config (Some (MISE_BLOCK_END @ MISE_BLOCK_BEGIN @ MISE_BLOCK_END))
       = MISE_BLOCK_END @ MISE_BLOCK @ MISE_BLOCK_BEGIN @ MISE_BLOCK_END
   \<and> update_fish_config (Some (MISE_BLOCK_END @ MISE_BLOCK_BEGIN @ MISE_BLOCK_END))
       \<noteq> MISE_BLOCK_END @ MISE_BLOCK"
  by (simp add: update_fish_config_def read_text_def mise_defs contains_sub_def split1_def
      lstrip_nl_def)

text \<open>
  C6 (amended): let the text of the host file as \<open>read_text\<close> returns it (every
  \<open>CR LF\<close> and \<open>CR\<close> of the file read as \<open>LF\<close>) be \<open>pre @ BEGIN @ mid @ END @ post\<close>, with
  the first begin marker right after \<open>pre\<close> and the first end marker the one that follows
  \<open>mid\<close>. Then the upsert writes \<open>pre\<close>, the new block, and \<open>post\<close> without its leading
  newlines: the text before the begin marker is kept, byte for byte when the file holds
  no carriage return and with its line endings turned into \<open>LF\<close> otherwise; the range
  from begin marker through end marker is replaced by the block; the text after the end
  marker is kept in the same sense apart from the removal of every leading newline, so
  the only newline at the boundary is the block's own and the text after the block never
  starts with a blank line.
\<close>

theorem update_fish_config_replace:
  assumes t: "read_text content = pre @ MISE_BLOCK_BEGIN @ mid @ MISE_BLOCK_END @ post"
    and b: "find_sub MISE_BLOCK_BEGIN (read_text content) = Some (length pre)"
    and e: "find_sub MISE_BLOCK_END (read_text content)
              = Some (length pre + length MISE_BLOCK_BEGIN + length mid)"
  shows "update_fish_config (Some content) = pre @ MISE_BLOCK @ dropWhile (\<lambda>c. c = NL) post
         \<and> (dropWhile (\<lambda>c. c = NL) post = [] \<or> hd (dropWhile (\<lambda>c. c = NL) post) \<noteq> NL)
         \<and> (CR \<notin> set content \<longrightarrow> content = pre @ MISE_BLOCK_BEGIN @ mid @ MISE_BLOCK_END @ post)"
proof -
  have pre: "take (length pre) (read_text content) = pre" using t by simp
  have post: "drop (length pre + length MISE_BLOCK_BEGIN + length mid + length MISE_BLOCK_END)
                (read_text content) = post"
    using t by simp
  have "update_fish_config (Some content) = pre @ MISE_BLOCK @ dropWhile (\<lambda>c. c = NL) post"
    using b e pre post
    by (simp add: update_fish_config_def contains_sub_def split1_def lstrip_nl_def Let_def)
  moreover have "dropWhile (\<lambda>c. c = NL) post = [] \<or> hd (dropWhile (\<lambda>c. c = NL) post) \<noteq> NL"
    using hd_dropWhile[of "\<lambda>c. c = NL" post] by blast
  moreover have "CR \<notin> set content \<longrightarrow> content = pre @ MISE_BLOCK_BEGIN @ mid @ MISE_BLOCK_END @ post"
    using t universal_newlines_plain[of content] by (auto simp: read_text_def)
  ultimately show ?thesis by blast
qed

theorem update_fish_config_replace_witness:
  "update_fish_config
     (Some (''# a'' @ [CR, NL] @ MISE_BLOCK_BEGIN @ ([CR, NL] @ ''old'' @ [CR, NL])
            @ MISE_BLOCK_END @ ([CR, NL] @ ''set x 1'' @ [CR, NL])))
   = (''# a'' @ [NL]) @ MISE_BLOCK @ (''set x 1'' @ [NL])
   \<and> update_fish_config
     (Some (''# a'' @ [NL] @ MISE_BLOCK_BEGIN @ ([NL] @ ''old'' @ [NL])
            @ MISE_BLOCK_END @ ([NL, NL] @ ''set x 1'' @ [NL])))
   = (''# a'' @ [NL]) @ MISE_BLOCK @ (''set x 1'' @ [NL])"
proof -
  let ?c = "''# a'' @ [CR, NL] @ MISE_BLOCK_BEGIN @ ([CR, NL] @ ''old'' @ [CR, NL])
            @ MISE_BLOCK_END @ ([CR, NL] @ ''set x 1'' @ [CR, NL])"
  let ?d = "''# a'' @ [NL] @ MISE_BLOCK_BEGIN @ ([NL] @ ''old'' @ [NL])
            @ MISE_BLOCK_END @ ([NL, NL] @ ''set x 1'' @ [NL])"
  let ?pre = "''# a'' @ [NL]"
  let ?mid = "[NL] @ ''old'' @ [NL]"
  let ?post = "[NL] @ ''set x 1'' @ [NL]"
  let ?post2 = "[NL, NL] @ ''set x 1'' @ [NL]"
  have t: "read_text ?c = ?pre @ MISE_BLOCK_BEGIN @ ?mid @ MISE_BLOCK_END @ ?post"
    by (simp add: read_text_def mise_defs)
  have b: "find_sub MISE_BLOCK_BEGIN (read_text ?c) = Some (length ?pre)"
    unfolding t by (simp add: mise_defs)
  have e: "find_sub MISE_BLOCK_END (read_text ?c)
             = Some (length ?pre + length MISE_BLOCK_BEGIN + length ?mid)"
    unfolding t by (simp add: mise_defs)
  have cr: "CR \<notin> set ?d" by (simp add: mise_defs)
  have t2: "read_text ?d = ?pre @ MISE_BLOCK_BEGIN @ ?mid @ MISE_BLOCK_END @ ?post2"
    by (simp add: read_text_def mise_defs)
  have b2: "find_sub MISE_BLOCK_BEGIN (read_text ?d) = Some (length ?pre)"
    unfolding t2 by (simp add: mise_defs)
  have e2: "find_sub MISE_BLOCK_END (read_text ?d)
             = Some (length ?pre + length MISE_BLOCK_BEGIN + length ?mid)"
    unfolding t2 by (simp add: mise_defs)
  from update_fish_config_replace [OF t b e] update_fish_config_replace [OF t2 b2 e2] cr
  show ?thesis by simp
qed

text \<open>
  C7 (as stated: the appended block is preceded by exactly one blank line unless the
  file already ends in one). The claim fails for an existing empty file: the code
  writes a newline because the empty text does not end in one, then a second newline
  in front of the block, so two empty lines precede the block.
\<close>

theorem update_fish_config_append_counterexample:
  "\<not> contains_sub MISE_BLOCK_BEGIN [] \<and> \<not> contains_sub MISE_BLOCK_END []
   \<and> update_fish_config (Some []) = [NL, NL] @ MISE_BLOCK
   \<and> update_fish_config (Some []) \<noteq> [NL] @ MISE_BLOCK"
  by (simp add: update_fish_config_def read_text_def mise_defs contains_sub_def endswith_nl_def)

text \<open>
  C7 (amended): for every existing host file whose text as read contains neither
  marker, the upsert keeps the existing bytes verbatim as a prefix, adds a newline when
  the file does not end in a line ending (\<open>LF\<close> or \<open>CR\<close>), and then always writes one
  further newline and the block. The block therefore follows exactly one blank line
  when the content is non-empty, ends in neither \<open>CR\<close> nor a blank line; a further
  blank line is added also to an empty file and to content that already ends in one, and
  after a final \<open>CR\<close> the written newline only completes that line ending.
\<close>

theorem update_fish_config_append:
  assumes "\<not> contains_sub MISE_BLOCK_BEGIN (read_text t)"
    "\<not> contains_sub MISE_BLOCK_END (read_text t)"
  shows "prefix t (update_fish_config (Some t))
         \<and> update_fish_config (Some t)
             = t @ (if t \<noteq> [] \<and> (last t = NL \<or> last t = CR) then [] else [NL])
                 @ [NL] @ MISE_BLOCK"
proof -
  have "update_fish_config (Some t)
        = t @ (if \<not> endswith_nl (read_text t) then [NL] else []) @ [NL] @ MISE_BLOCK"
    using assms by (simp add: update_fish_config_def Let_def)
  hence u: "update_fish_config (Some t)
             = t @ (if t \<noteq> [] \<and> (last t = NL \<or> last t = CR) then [] else [NL])
                 @ [NL] @ MISE_BLOCK"
    using universal_newlines_endswith[of t] by (simp add: read_text_def)
  hence "prefix t (update_fish_config (Some t))" by simp
  with u show ?thesis by blast
qed

theorem update_fish_config_append_witness:
  "update_fish_config (Some (''alias g git'' @ [NL])) = ''alias g git'' @ [NL, NL] @ MISE_BLOCK
   \<and> update_fish_config (Some (''alias g git'' @ [CR])) = ''alias g git'' @ [CR, NL] @ MISE_BLOCK
   \<and> update_fish_config (Some ''alias g git'') = ''alias g git'' @ [NL, NL] @ MISE_BLOCK"
proof -
  have a: "\<not> contains_sub MISE_BLOCK_BEGIN (read_text (''alias g git'' @ [NL]))"
          "\<not> contains_sub MISE_BLOCK_END (read_text (''alias g git'' @ [NL]))"
    by (simp_all add: contains_sub_def read_text_def mise_defs)
  have b: "\<not> contains_sub MISE_BLOCK_BEGIN (read_text (''alias g git'' @ [CR]))"
          "\<not> contains_sub MISE_BLOCK_END (read_text (''alias g git'' @ [CR]))"
    by (simp_all add: contains_sub_def read_text_def mise_defs)
  have c: "\<not> contains_sub MISE_BLOCK_BEGIN (read_text ''alias g git'')"
          "\<not> contains_sub MISE_BLOCK_END (read_text ''alias g git'')"
    by (simp_all add: contains_sub_def read_text_def mise_defs)
  from update_fish_config_append [OF a] update_fish_config_append [OF b]
    update_fish_config_append [OF c]
  show ?thesis by simp
qed

section \<open>Evaluation on concrete inputs\<close>

lemma resolve_link_numeral:
  "resolve_link (numeral k) fs p =
     (case lookup fs p of Some (Symlink t) \<Rightarrow> resolve_link (pred_numeral k) fs t | _ \<Rightarrow> Some p)"
  by (simp add: numeral_eq_Suc)

lemmas fs_eval = lookup_def path_exists_def is_symlink_def is_dir_def resolve_def MAXSYMLINKS_def
  resolve_link_numeral bind_def remove_def move_def has_children_def creatable_def unlink_def
  os_rename_def os_mkdir_def os_symlink_def mkdir_exist_ok_def mkdir_parents_def backup_path_def
  str_path_def

lemmas link_eval = remove_existing_def link_try_def link_one_def symlinks_def create_symlinks_def
  Let_def

lemma ex_cfg: "create_config_structure (home example_world) (disk example_world)
   = (True, ([''Users'', ''me'', ''.config''], Dir) # example_disk,
      [(SUCCESS, ''Config directory ready: /Users/me/.config'')])"
  by (simp add: create_config_structure_def example_world_def example_disk_def fs_eval)

lemma ex_links: "success (create_symlinks (repo_root example_world) (home example_world)
    (([''Users'', ''me'', ''.config''], Dir) # example_disk))"
  by (simp add: example_world_def example_disk_def fs_eval link_eval)


lemmas step_eval = install_xcode_clt_def install_homebrew_def install_brewfile_def
  setup_fish_shell_def fish_try_def change_shell_def verify_installation_def checks_def
  run_command_def contains_sub_def create_config_structure_def finished_def


section \<open>The steps of setup.py\<close>

lemma run_command_unchecked:
  "run_command sp c d False =
     (case sp of None \<Rightarrow> Inl FileNotFoundError
               | Some r \<Rightarrow> Inr (returncode r, stdout r @ stderr r),
      if d \<noteq> [] then [(INFO, d)] else [])"
  by (simp add: run_command_def Let_def split: option.splits)

lemma install_xcode_clt_cases:
  "fst (install_xcode_clt w) = Inr True \<or> fst (install_xcode_clt w) = Inr False
   \<or> fst (install_xcode_clt w) = Inl FileNotFoundError"
  by (cases "xcode_select w") (auto simp: install_xcode_clt_def run_command_unchecked Let_def)

lemma install_homebrew_cases:
  "fst (install_homebrew w) = Inr True \<or> fst (install_homebrew w) = Inr False
   \<or> fst (install_homebrew w) = Inl FileNotFoundError"
  by (cases "brew_installer w") (auto simp: install_homebrew_def run_command_unchecked Let_def)

lemma install_brewfile_returns: "\<exists>b. fst (install_brewfile root fs sp) = Inr b"
  by (cases sp) (auto simp: install_brewfile_def run_command_unchecked Let_def)

lemma change_shell_cases:
  "(fst (change_shell w l0) = Inr True)
   \<or> (fst (change_shell w l0) = Inr False \<and> (\<exists>m. (WARNING, m) \<in> set (snd (change_shell w l0))))
   \<or> (fst (change_shell w l0) = Inl FileNotFoundError)"
  by (cases "chsh w") (auto simp: change_shell_def run_command_unchecked)

lemma fish_try_cases:
  "(fst (fish_try w) = Inr True)
   \<or> (fst (fish_try w) = Inr False \<and> (\<exists>m. (WARNING, m) \<in> set (snd (fish_try w))))
   \<or> (\<exists>e. fst (fish_try w) = Inl e \<and> is_exception e)"
proof (cases "which_fish w")
  case None then show ?thesis by (simp add: fish_try_def)
next
  case (Some r)
  show ?thesis
  proof (cases "grep_shells w")
    case None with Some show ?thesis by (simp add: fish_try_def)
  next
    case g: (Some g)
    show ?thesis
    proof (cases "tee_shells w")
      case None with Some g change_shell_cases[of w "[]"] show ?thesis
        by (auto simp: fish_try_def run_command_unchecked)
    next
      case t: (Some t)
      with Some g change_shell_cases[of w "[]"]
        change_shell_cases[of w "[(INFO, ''Adding fish to /etc/shells'')]"]
      show ?thesis
        by (auto simp: fish_try_def run_command_unchecked)
    qed
  qed
qed

lemma setup_fish_shell_cases:
  "(fst (setup_fish_shell w) = Inr True)
   \<or> (fst (setup_fish_shell w) = Inr False
       \<and> (\<exists>m. (WARNING, m) \<in> set (snd (setup_fish_shell w))))"
  using fish_try_cases[of w]
  by (cases "fish_try w") (auto simp: setup_fish_shell_def split: sum.splits)

lemma verify_loop_warns:
  "verify_loop found cs g l = (b, l') \<Longrightarrow> \<not> b \<Longrightarrow>
     g \<or> (\<exists>m. (WARNING, m) \<in> set l) \<Longrightarrow> \<exists>m. (WARNING, m) \<in> set l'"
proof (induction found cs g l rule: verify_loop.induct)
  case (1 found all_good l)
  then show ?case by auto
next
  case (2 found name cmd cs all_good l)
  show ?case
  proof (cases "found cmd")
    case True
    with 2 show ?thesis by auto
  next
    case False
    with "2.prems" "2.IH"(2) show ?thesis by auto
  qed
qed

lemma verify_installation_cases:
  "(fst (verify_installation w) = Inr True)
   \<or> (fst (verify_installation w) = Inr False
       \<and> (\<exists>m. (WARNING, m) \<in> set (snd (verify_installation w))))"
proof (cases "verify_loop (verify_found w) checks True []")
  case (Pair b l)
  with verify_loop_warns[OF Pair] show ?thesis
    by (cases b) (auto simp: verify_installation_def)
qed


lemma main_tail_runs:
  "\<exists>b4 l4 b5 l5 b6 l6 b7 l7.
     main_tail w fs3 rs =
       (0, rs @ [(Symlinks, Inr b4, l4), (Brewfile, Inr b5, l5),
                 (FishShell, Inr b6, l6), (Verify, Inr b7, l7)])
     \<and> (\<not> b4 \<longrightarrow> (\<exists>m. (WARNING, m) \<in> set l4))
     \<and> (\<not> b5 \<longrightarrow> (\<exists>m. (WARNING, m) \<in> set l5))
     \<and> (\<not> b6 \<longrightarrow> (\<exists>m. (WARNING, m) \<in> set l6))
     \<and> (\<not> b7 \<longrightarrow> (\<exists>m. (WARNING, m) \<in> set l7))"
proof -
  define st where "st = create_symlinks (repo_root w) (home w) fs3"
  obtain b5 where b5: "fst (install_brewfile (repo_root w) (st_fs st) (brew_bundle w)) = Inr b5"
    using install_brewfile_returns by blast
  obtain l5 where l5: "install_brewfile (repo_root w) (st_fs st) (brew_bundle w) = (Inr b5, l5)"
    using b5 by (cases "install_brewfile (repo_root w) (st_fs st) (brew_bundle w)") auto
  obtain b6 l6 where l6: "setup_fish_shell w = (Inr b6, l6)"
    and w6: "\<not> b6 \<longrightarrow> (\<exists>m. (WARNING, m) \<in> set l6)"
    using setup_fish_shell_cases[of w] by (cases "setup_fish_shell w") auto
  obtain b7 l7 where l7: "verify_installation w = (Inr b7, l7)"
    and w7: "\<not> b7 \<longrightarrow> (\<exists>m. (WARNING, m) \<in> set l7)"
    using verify_installation_cases[of w] by (cases "verify_installation w") auto
  let ?l4 = "st_log st @ (if \<not> success st
                   then [(WARNING, ''Some symlinks failed to create, but continuing...'')]
                   else [])"
  let ?l5 = "l5 @ (if \<not> b5
                   then [(WARNING, ''Brewfile installation had issues, but continuing...'')]
                   else [])"
  have "main_tail w fs3 rs =
       (0, rs @ [(Symlinks, Inr (success st), ?l4), (Brewfile, Inr b5, ?l5),
                 (FishShell, Inr b6, l6), (Verify, Inr b7, l7)])"
    using l5 l6 l7 by (simp add: main_tail_def st_def[symmetric] Let_def)
  moreover have "\<not> success st \<longrightarrow> (\<exists>m. (WARNING, m) \<in> set ?l4)" by auto
  moreover have "\<not> b5 \<longrightarrow> (\<exists>m. (WARNING, m) \<in> set ?l5)" by auto
  ultimately show ?thesis using w6 w7 by blast
qed

lemma main_runs:
  "(fst (install_xcode_clt w) \<noteq> Inr True
      \<longrightarrow> fst (main w) = 1 \<and> map fst (snd (main w)) = [XcodeCLT])
   \<and> (fst (install_xcode_clt w) = Inr True \<and> fst (install_homebrew w) \<noteq> Inr True
      \<longrightarrow> fst (main w) = 1 \<and> map fst (snd (main w)) = [XcodeCLT, Homebrew])
   \<and> (fst (install_xcode_clt w) = Inr True \<and> fst (install_homebrew w) = Inr True
        \<and> \<not> fst (create_config_structure (home w) (disk w))
      \<longrightarrow> fst (main w) = 1
          \<and> map fst (snd (main w)) = [XcodeCLT, Homebrew, ConfigStructure])
   \<and> (fst (install_xcode_clt w) = Inr True \<and> fst (install_homebrew w) = Inr True
        \<and> fst (create_config_structure (home w) (disk w))
      \<longrightarrow> fst (main w) = 0
          \<and> map fst (snd (main w))
              = [XcodeCLT, Homebrew, ConfigStructure, Symlinks, Brewfile, FishShell, Verify]
          \<and> (\<forall>r \<in> set (snd (main w)).
                fst (snd r) = Inr False \<longrightarrow> (\<exists>m. (WARNING, m) \<in> set (snd (snd r)))))"
proof -
  obtain r1 l1 where s1: "install_xcode_clt w = (r1, l1)" by (cases "install_xcode_clt w")
  obtain r2 l2 where s2: "install_homebrew w = (r2, l2)" by (cases "install_homebrew w")
  obtain ok3 fs3 l3 where s3: "create_config_structure (home w) (disk w) = (ok3, fs3, l3)"
    by (cases "create_config_structure (home w) (disk w)")
  have c1: "r1 = Inr True \<or> r1 = Inr False \<or> r1 = Inl FileNotFoundError"
    using install_xcode_clt_cases[of w] s1 by simp
  have c2: "r2 = Inr True \<or> r2 = Inr False \<or> r2 = Inl FileNotFoundError"
    using install_homebrew_cases[of w] s2 by simp
  have a: "r1 \<noteq> Inr True \<Longrightarrow> fst (main w) = 1 \<and> map fst (snd (main w)) = [XcodeCLT]"
    using c1 s1 by (auto simp: main_def)
  have b: "r1 = Inr True \<Longrightarrow> r2 \<noteq> Inr True
      \<Longrightarrow> fst (main w) = 1 \<and> map fst (snd (main w)) = [XcodeCLT, Homebrew]"
    using c2 s1 s2 by (auto simp: main_def)
  have c: "r1 = Inr True \<Longrightarrow> r2 = Inr True \<Longrightarrow> \<not> ok3
      \<Longrightarrow> fst (main w) = 1 \<and> map fst (snd (main w)) = [XcodeCLT, Homebrew, ConfigStructure]"
    using s1 s2 s3 by (auto simp: main_def)
  have d: "fst (main w) = 0
          \<and> map fst (snd (main w))
              = [XcodeCLT, Homebrew, ConfigStructure, Symlinks, Brewfile, FishShell, Verify]
          \<and> (\<forall>r \<in> set (snd (main w)).
                fst (snd r) = Inr False \<longrightarrow> (\<exists>m. (WARNING, m) \<in> set (snd (snd r))))"
    if ok: "r1 = Inr True" "r2 = Inr True" "ok3"
  proof -
    let ?rs = "[(XcodeCLT, Inr True, l1), (Homebrew, Inr True, l2), (ConfigStructure, Inr True, l3)]"
    have m: "main w = main_tail w fs3 ?rs"
      using ok s1 s2 s3 by (simp add: main_def)
    obtain b4 l4 b5 l5 b6 l6 b7 l7 where
      t: "main_tail w fs3 ?rs =
           (0, ?rs @ [(Symlinks, Inr b4, l4), (Brewfile, Inr b5, l5),
                 (FishShell, Inr b6, l6), (Verify, Inr b7, l7)])"
      and ws: "\<not> b4 \<longrightarrow> (\<exists>m. (WARNING, m) \<in> set l4)"
        "\<not> b5 \<longrightarrow> (\<exists>m. (WARNING, m) \<in> set l5)"
        "\<not> b6 \<longrightarrow> (\<exists>m. (WARNING, m) \<in> set l6)"
        "\<not> b7 \<longrightarrow> (\<exists>m. (WARNING, m) \<in> set l7)"
      using main_tail_runs[of w fs3 ?rs] by blast
    from m t ws show ?thesis by auto
  qed
  from a b c d s1 s2 s3 show ?thesis by auto
qed


text \<open>
  C10: when the Brewfile exists and \<open>brew bundle\<close> can be started, \<open>install_brewfile\<close>
  returns \<open>True\<close> whatever the exit code and the output of the command are; it returns
  \<open>False\<close> exactly when the Brewfile is absent or starting the command raises.
\<close>

theorem install_brewfile_reports:
  "(fst (install_brewfile root fs sp) = Inr True
      \<longleftrightarrow> path_exists fs (root @ [''brewfile'', ''Brewfile'']) \<and> (\<exists>r. sp = Some r))
   \<and> (fst (install_brewfile root fs sp) = Inr False
      \<longleftrightarrow> \<not> path_exists fs (root @ [''brewfile'', ''Brewfile'']) \<or> sp = None)"
  by (cases sp) (auto simp: install_brewfile_def run_command_unchecked Let_def)

theorem install_brewfile_reports_witness:
  "fst (install_brewfile [''repo''] [([''repo'', ''brewfile'', ''Brewfile''], File ''brew git'')]
          (Some \<lparr>returncode = 1, stdout = [], stderr = ''Error: cask failed''\<rparr>)) = Inr True"
proof -
  have "path_exists [([''repo'', ''brewfile'', ''Brewfile''], File ''brew git'')]
          ([''repo''] @ [''brewfile'', ''Brewfile''])"
    by (simp add: path_exists_def MAXSYMLINKS_def lookup_def resolve_link_numeral)
  with install_brewfile_reports show ?thesis by blast
qed





text \<open>
  C4 (as stated: a run whose steps all succeed but whose verification fails exits with
  code 2). On the sample machine every step of \<open>setup.py\<close> succeeds, the verification
  reports a missing tool, and \<open>main\<close> still returns 0.
\<close>

theorem exit_codes_counterexample:
  "fst (main example_world) = 0
   \<and> map (\<lambda>r. (fst r, fst (snd r))) (snd (main example_world))
       = [(XcodeCLT, Inr True), (Homebrew, Inr True), (ConfigStructure, Inr True),
          (Symlinks, Inr True), (Brewfile, Inr True), (FishShell, Inr True),
          (Verify, Inr False)]"
proof -
  have s12: "install_xcode_clt example_world
          = (Inr True, [(SUCCESS, ''Xcode Command Line Tools already installed'')])"
       "install_homebrew example_world = (Inr True, [(SUCCESS, ''Homebrew already installed'')])"
    by (simp_all add: example_world_def step_eval)
  have s6: "fst (setup_fish_shell example_world) = Inr True"
    by (simp add: example_world_def step_eval)
  have s7: "fst (verify_installation example_world) = Inr False"
    by (simp add: example_world_def step_eval)
  let ?st = "create_symlinks (repo_root example_world) (home example_world)
    (([''Users'', ''me'', ''.config''], Dir) # example_disk)"
  have bf: "path_exists (st_fs ?st) (repo_root example_world @ [''brewfile'', ''Brewfile''])"
    by (simp add: example_world_def example_disk_def fs_eval link_eval)
  have s5: "fst (install_brewfile (repo_root example_world) (st_fs ?st)
                  (brew_bundle example_world)) = Inr True"
    using bf by (simp add: install_brewfile_def Let_def run_command_def)
       (simp add: example_world_def finished_def)
  obtain l5 where e5: "install_brewfile (repo_root example_world) (st_fs ?st)
                  (brew_bundle example_world) = (Inr True, l5)"
    using s5 by (cases "install_brewfile (repo_root example_world) (st_fs ?st)
                  (brew_bundle example_world)") auto
  obtain l6 where e6: "setup_fish_shell example_world = (Inr True, l6)"
    using s6 by (cases "setup_fish_shell example_world") auto
  obtain l7 where e7: "verify_installation example_world = (Inr False, l7)"
    using s7 by (cases "verify_installation example_world") auto
  show ?thesis
    by (simp add: main_def main_tail_def s12 ex_cfg e5 e6 e7 ex_links Let_def)
qed


text \<open>
  C4 (amended): \<open>setup.py\<close> exits with 0 when its three required steps succeed,
  whatever the later steps and the verification report, and with 1 otherwise;
  \<open>setup_mise.py\<close> exits with 0 when the user declines, with 1 when \<open>mise\<close> is not
  available, with 2 when the verification after the run fails, and with 0 otherwise.
\<close>

theorem exit_codes:
  "fst (main w) =
     (if fst (install_xcode_clt w) = Inr True \<and> fst (install_homebrew w) = Inr True
         \<and> fst (create_config_structure (home w) (disk w)) then 0 else 1)
   \<and> fst (mise_main m) =
     (if \<not> arg_yes m \<and> \<not> (answer m = ''y'' \<or> answer m = ''Y'') then 0
      else if \<not> mise_available m then 1
      else if \<not> verify_ok m then 2 else 0)"
  using main_runs[of w] by (auto simp: mise_main_def Let_def)

theorem exit_codes_witness:
  "fst (main example_world) = 0
   \<and> fst (mise_main \<lparr>arg_yes = True, answer = [], mise_available = True,
                      config_file = None, verify_ok = False\<rparr>) = 2
   \<and> fst (mise_main \<lparr>arg_yes = True, answer = [], mise_available = False,
                      config_file = None, verify_ok = True\<rparr>) = 1"
proof -
  have b: "fst (install_xcode_clt example_world) = Inr True"
    "fst (install_homebrew example_world) = Inr True"
    by (simp_all add: example_world_def step_eval)
  have c: "fst (create_config_structure (home example_world) (disk example_world))"
    by (simp add: ex_cfg)
  from exit_codes [of example_world "\<lparr>arg_yes = True, answer = [], mise_available = True,
                      config_file = None, verify_ok = False\<rparr>"]
    exit_codes [of example_world "\<lparr>arg_yes = True, answer = [], mise_available = False,
                      config_file = None, verify_ok = True\<rparr>"] b c
  show ?thesis by simp
qed


section \<open>The symlink reconciler\<close>



lemma loop_append:
  "create_symlinks_loop root (xs @ ys) st
     = create_symlinks_loop root ys (create_symlinks_loop root xs st)"
  by (induction xs arbitrary: st) simp_all






text \<open>
  C5 (the aggregate result is false if and only if some mapping failed, a missing source
  counting as a failure): evaluated on a repository that holds none of the six sources,
  \<open>create_symlinks\<close> creates nothing and still returns \<open>True\<close>.
\<close>

theorem create_symlinks_missing_sources_succeeds:
  "success (create_symlinks [''repo''] [''home''] [([''home''], Dir), ([''repo''], Dir)])
   \<and> st_fs (create_symlinks [''repo''] [''home''] [([''home''], Dir), ([''repo''], Dir)])
       = [([''home''], Dir), ([''repo''], Dir)]"
  by (simp add: fs_eval link_eval)


text \<open>
  C2 (with an existing backup the occupant is removed, file or directory, and the link
  is created): evaluated on a target that is a directory with a backup beside it, the
  \<open>unlink\<close> of the directory raises, the mapping is reported as failed, and the
  directory is still in place with no link created.
\<close>

theorem create_symlinks_directory_occupant:
  "link_one [''Users'', ''me'', ''dotfiles''] ([''fish''], [''Users'', ''me'', ''.config'', ''fish''])
     \<lparr>st_fs = occupied_disk, success = True, st_log = []\<rparr>
   = \<lparr>st_fs = occupied_disk, success = False,
      st_log = [(INFO, ''Config already backed up at: /Users/me/.config/fish.backup''),
                (ERROR, ''Failed to create symlink /Users/me/.config/fish: Is a directory'')]\<rparr>
   \<and> lookup occupied_disk [''Users'', ''me'', ''.config'', ''fish''] = Some Dir"
  by (simp add: occupied_disk_def foreign_disk_def example_disk_def fs_eval link_eval)

lemma map_of_remove:
  "map_of (filter (\<lambda>(k, e). k \<noteq> p) fs) q = (if q = p then None else map_of fs q)"
  by (induction fs) auto

lemma lookup_remove: "q \<noteq> p \<Longrightarrow> lookup (remove p fs) q = lookup fs q"
  by (simp add: lookup_def remove_def map_of_remove)

lemma lookup_bind: "q \<noteq> p \<Longrightarrow> lookup (bind p e fs) q = lookup fs q"
  by (simp add: lookup_def bind_def)

lemma map_of_move:
  assumes "\<not> prefix b (a @ s)"
  shows "map_of (move a b fs) (b @ s) = map_of fs (a @ s)"
proof (induction fs)
  case Nil
  then show ?case by (simp add: move_def)
next
  case (Cons x fs)
  obtain k e where x: "x = (k, e)" by (cases x)
  have IH: "map_of (move a b fs) (b @ s) = map_of fs (a @ s)"
    using Cons.IH .
  show ?case
  proof (cases "prefix b k")
    case True
    with assms have "k \<noteq> a @ s" by auto
    with True IH x show ?thesis by (simp add: move_def)
  next
    case nb: False
    show ?thesis
    proof (cases "prefix a k")
      case True
      then obtain r where r: "k = a @ r" by (auto simp: prefix_def)
      with nb IH x show ?thesis by (auto simp: move_def)
    next
      case False
      hence "k \<noteq> a @ s" by auto
      moreover from nb have "k \<noteq> b @ s" by auto
      ultimately show ?thesis using nb False IH x by (auto simp: move_def)
    qed
  qed
qed

lemma lookup_move:
  "a \<noteq> [] \<Longrightarrow> b \<noteq> [] \<Longrightarrow> \<not> prefix b (a @ s) \<Longrightarrow>
   lookup (move a b fs) (b @ s) = lookup fs (a @ s)"
  by (simp add: lookup_def map_of_move)

lemma os_mkdir_frame:
  "os_mkdir fs p = Inr fs' \<Longrightarrow> q \<noteq> p \<Longrightarrow> lookup fs' q = lookup fs q"
  by (auto simp: os_mkdir_def lookup_bind split: option.splits)

lemma os_symlink_frame:
  "os_symlink fs t p = Inr fs' \<Longrightarrow> q \<noteq> p \<Longrightarrow> lookup fs' q = lookup fs q"
  by (auto simp: os_symlink_def lookup_bind split: option.splits)

lemma unlink_frame:
  "unlink fs p = Inr fs' \<Longrightarrow> q \<noteq> p \<Longrightarrow> lookup fs' q = lookup fs q"
  by (auto simp: unlink_def lookup_remove split: option.splits entry.splits)

lemma mkdir_exist_ok_frame:
  "mkdir_exist_ok fs p = Inr fs' \<Longrightarrow> q \<noteq> p \<Longrightarrow> lookup fs' q = lookup fs q"
  by (auto simp: mkdir_exist_ok_def split: sum.splits error.splits if_splits
      dest: os_mkdir_frame)

lemma mkdir_rev_frame:
  "mkdir_rev fs rp = Inr fs' \<Longrightarrow> length rp < length q \<Longrightarrow> lookup fs' q = lookup fs q"
proof (induction rp arbitrary: fs')
  case Nil
  then show ?case by simp
next
  case (Cons c rp)
  have ne: "q \<noteq> rev (c # rp)" using Cons.prems(2) by auto
  have len: "length rp < length q" using Cons.prems(2) by simp
  show ?case
  proof (cases "os_mkdir fs (rev (c # rp))")
    case (Inr fs1)
    with Cons.prems(1) have "fs' = fs1" by simp
    with os_mkdir_frame[OF Inr ne] show ?thesis by simp
  next
    case (Inl e)
    show ?thesis
    proof (cases "e = FileNotFoundError")
      case True
      with Inl Cons.prems(1) obtain fs1 where
        r: "mkdir_rev fs rp = Inr fs1" and m: "mkdir_exist_ok fs1 (rev (c # rp)) = Inr fs'"
        by (auto split: sum.splits)
      from Cons.IH[OF r len] mkdir_exist_ok_frame[OF m ne] show ?thesis by simp
    next
      case False
      with Inl Cons.prems(1) have "fs' = fs"
        by (cases e) (auto split: if_splits)
      then show ?thesis by simp
    qed
  qed
qed

lemma mkdir_parents_frame:
  "mkdir_parents fs p = Inr fs' \<Longrightarrow> length p < length q \<Longrightarrow> lookup fs' q = lookup fs q"
  using mkdir_rev_frame[of fs "rev p" fs' q] by (simp add: mkdir_parents_def)

lemma resolve_link_plain:
  "(\<And>t. lookup fs p \<noteq> Some (Symlink t)) \<Longrightarrow> resolve_link n fs p = Some p"
  by (cases n) (auto split: option.splits entry.splits)

lemma path_exists_plain:
  "lookup fs p = Some e \<Longrightarrow> (\<And>t. e \<noteq> Symlink t) \<Longrightarrow> path_exists fs p"
  using resolve_link_plain[of fs p MAXSYMLINKS] by (auto simp: path_exists_def)

lemma path_exists_absent: "lookup fs p = None \<Longrightarrow> \<not> path_exists fs p"
  using resolve_link_plain[of fs p MAXSYMLINKS] by (auto simp: path_exists_def)

lemma is_dir_exists: "is_dir fs p \<Longrightarrow> path_exists fs p"
  by (auto simp: is_dir_def path_exists_def split: option.splits)

lemma backup_path_facts:
  assumes "dst \<noteq> []"
  shows "length (backup_path dst) = length dst" "backup_path dst \<noteq> dst"
    "butlast (backup_path dst) = butlast dst" "backup_path dst \<noteq> []"
    "\<not> prefix dst (backup_path dst)" "\<not> prefix (backup_path dst) (dst @ s)"
proof -
  show l: "length (backup_path dst) = length dst" using assms by (simp add: backup_path_def)
  show n: "backup_path dst \<noteq> dst"
  proof
    assume "backup_path dst = dst"
    hence "last (backup_path dst) = last dst" by simp
    thus False using assms by (simp add: backup_path_def)
  qed
  show "butlast (backup_path dst) = butlast dst" using assms by (simp add: backup_path_def)
  show "backup_path dst \<noteq> []" using assms by (simp add: backup_path_def)
  show "\<not> prefix dst (backup_path dst)"
  proof
    assume "prefix dst (backup_path dst)"
    then obtain r where r: "backup_path dst = dst @ r" by (auto simp: prefix_def)
    with l have "length (dst @ r) = length dst" by simp
    hence "r = []" by simp
    with r n show False by simp
  qed
  show "\<not> prefix (backup_path dst) (dst @ s)"
  proof
    assume "prefix (backup_path dst) (dst @ s)"
    then obtain zs where "dst @ s = backup_path dst @ zs" by (auto simp: prefix_def)
    with l have "dst = backup_path dst" by (simp add: append_eq_append_conv)
    with n show False by simp
  qed
qed


lemma remove_existing_keeps:
  assumes "path_exists fs (backup_path dst)" "q \<noteq> dst"
  shows "lookup (fst (remove_existing fs dst)) q = lookup fs q"
  using assms
  by (auto simp: remove_existing_def Let_def split: sum.splits dest: unlink_frame)

lemma after_removal_frame:
  assumes q: "length dst \<le> length q" "q \<noteq> dst"
  shows "lookup
     (fst (case mkdir_parents fa (butlast dst) of
             Inl e \<Rightarrow> (fa, la, Some e)
           | Inr fs2 \<Rightarrow>
               (case resolve fs2 src of
                  Inl e \<Rightarrow> (fs2, la, Some e)
                | Inr target \<Rightarrow>
                    (case os_symlink fs2 target dst of
                       Inl e \<Rightarrow> (fs2, la, Some e)
                     | Inr fs3 \<Rightarrow> (fs3, la @ lb, None))))) q
   = lookup fa q"
proof -
  have len: "length (butlast dst) < length q"
    using q by (cases dst rule: rev_cases) auto
  show ?thesis
    using mkdir_parents_frame[OF _ len] os_symlink_frame[OF _ q(2)]
    by (auto split: sum.splits)
qed

lemma link_try_frame:
  "link_try fs src rel dst =
     (case remove_existing fs dst of
        (fs1, l1, Some e) \<Rightarrow> (fs1, l1, Some e)
      | (fs1, l1, None) \<Rightarrow>
          (case mkdir_parents fs1 (butlast dst) of
             Inl e \<Rightarrow> (fs1, l1, Some e)
           | Inr fs2 \<Rightarrow>
               (case resolve fs2 src of
                  Inl e \<Rightarrow> (fs2, l1, Some e)
                | Inr target \<Rightarrow>
                    (case os_symlink fs2 target dst of
                       Inl e \<Rightarrow> (fs2, l1, Some e)
                     | Inr fs3 \<Rightarrow>
                         (fs3,
                          l1 @ [(SUCCESS, ''Symlink created: '' @ last dst @ '' -> ''
                                          @ tl (str_path rel))],
                          None)))))"
  by (simp add: link_try_def)

lemma link_try_after:
  assumes q: "length dst \<le> length q" "q \<noteq> dst"
  shows "lookup (fst (link_try fs src rel dst)) q = lookup (fst (remove_existing fs dst)) q"
proof (cases "remove_existing fs dst")
  case (fields fs1 l1 r1)
  show ?thesis
  proof (cases r1)
    case None
    with fields after_removal_frame[OF q, where fa = fs1 and la = l1 and src = src]
    show ?thesis
      by (simp add: link_try_frame)
  next
    case (Some e)
    with fields show ?thesis by (simp add: link_try_frame)
  qed
qed

lemma remove_existing_backs_up:
  assumes d: "dst \<noteq> []" and e: "lookup fs dst = Some e" "\<And>t. e \<noteq> Symlink t"
    and nb: "lookup fs (backup_path dst) = None" and par: "is_dir fs (butlast dst)"
  shows "fst (remove_existing fs dst) = move dst (backup_path dst) fs"
proof -
  have ex: "path_exists fs dst" using path_exists_plain[OF e] .
  have ns: "\<not> is_symlink fs dst" using e by (cases e) (auto simp: is_symlink_def)
  have nbe: "\<not> path_exists fs (backup_path dst)" using path_exists_absent[OF nb] .
  have "os_rename fs dst (backup_path dst) = Inr (move dst (backup_path dst) fs)"
    using e(1) nb par is_dir_exists[OF par] backup_path_facts[OF d]
    by (simp add: os_rename_def)
  with ex ns nbe show ?thesis by (simp add: remove_existing_def Let_def)
qed

lemma link_try_first_backup:
  assumes d: "dst \<noteq> []" and e: "lookup fs dst = Some e" "\<And>t. e \<noteq> Symlink t"
    and nb: "lookup fs (backup_path dst) = None" and par: "is_dir fs (butlast dst)"
  shows "lookup (fst (link_try fs src rel dst)) (backup_path dst @ s) = lookup fs (dst @ s)"
proof -
  have l: "length dst \<le> length (backup_path dst @ s)"
    using backup_path_facts(1)[OF d] by simp
  have n: "backup_path dst @ s \<noteq> dst"
    using backup_path_facts(1,2)[OF d]
    by (metis append.right_neutral append_eq_append_conv)
  from link_try_after[OF l n] remove_existing_backs_up[OF d e nb par]
  have "lookup (fst (link_try fs src rel dst)) (backup_path dst @ s)
        = lookup (move dst (backup_path dst) fs) (backup_path dst @ s)" by simp
  also have "\<dots> = lookup fs (dst @ s)"
    using lookup_move[OF d backup_path_facts(4)[OF d] backup_path_facts(6)[OF d]] .
  finally show ?thesis .
qed

lemma link_one_fs:
  "st_fs (link_one root (rel, dst) st)
     = (if \<not> path_exists (st_fs st) (root @ rel) then st_fs st
        else fst (link_try (st_fs st) (root @ rel) rel dst))"
  by (auto simp: link_one_def Let_def split: prod.splits option.splits)

lemma map_of_move_other:
  assumes "\<not> prefix a q" "\<not> prefix b q"
  shows "map_of (move a b fs) q = map_of fs q"
proof (induction fs)
  case Nil
  then show ?case by (simp add: move_def)
next
  case (Cons x fs)
  obtain k e where x: "x = (k, e)" by (cases x)
  have IH: "map_of (move a b fs) q = map_of fs q" using Cons.IH .
  show ?case
  proof (cases "prefix b k")
    case True
    with assms have "k \<noteq> q" by auto
    with True IH x show ?thesis by (simp add: move_def)
  next
    case nb: False
    show ?thesis
    proof (cases "prefix a k")
      case True
      with assms have "k \<noteq> q" by auto
      moreover from assms(2) have "b @ drop (length a) k \<noteq> q" by auto
      ultimately show ?thesis using nb True IH x by (simp add: move_def)
    next
      case False
      with nb IH x show ?thesis by (simp add: move_def)
    qed
  qed
qed

lemma os_rename_apart:
  assumes "os_rename fs a b = Inr fs'" "\<not> prefix a q" "\<not> prefix b q"
  shows "lookup fs' q = lookup fs q"
proof -
  from assms(1) have "fs' = fs \<or> fs' = move a b fs"
    by (auto simp: os_rename_def split: option.splits if_splits entry.splits)
  with map_of_move_other[OF assms(2,3)] show ?thesis by (auto simp: lookup_def)
qed

lemma mkdir_rev_apart:
  "mkdir_rev fs rp = Inr fs' \<Longrightarrow> \<not> prefix q (rev rp) \<Longrightarrow> lookup fs' q = lookup fs q"
proof (induction rp arbitrary: fs')
  case Nil
  then show ?case by simp
next
  case (Cons c rp)
  have ne: "q \<noteq> rev (c # rp)" using Cons.prems(2) by auto
  have up: "\<not> prefix q (rev rp)" using Cons.prems(2) by (auto simp: prefix_def)
  show ?case
  proof (cases "os_mkdir fs (rev (c # rp))")
    case (Inr fs1)
    with Cons.prems(1) have "fs' = fs1" by simp
    with os_mkdir_frame[OF Inr ne] show ?thesis by simp
  next
    case (Inl e)
    show ?thesis
    proof (cases "e = FileNotFoundError")
      case True
      with Inl Cons.prems(1) obtain fs1 where
        r: "mkdir_rev fs rp = Inr fs1" and m: "mkdir_exist_ok fs1 (rev (c # rp)) = Inr fs'"
        by (auto split: sum.splits)
      from Cons.IH[OF r up] mkdir_exist_ok_frame[OF m ne] show ?thesis by simp
    next
      case False
      with Inl Cons.prems(1) have "fs' = fs"
        by (cases e) (auto split: if_splits)
      then show ?thesis by simp
    qed
  qed
qed

lemma mkdir_parents_apart:
  "mkdir_parents fs p = Inr fs' \<Longrightarrow> \<not> prefix q p \<Longrightarrow> lookup fs' q = lookup fs q"
  using mkdir_rev_apart[of fs "rev p" fs' q] by (simp add: mkdir_parents_def)

lemma remove_existing_apart:
  assumes "\<not> prefix dst q"
    and "path_exists fs (backup_path dst) \<or> \<not> prefix (backup_path dst) q"
  shows "lookup (fst (remove_existing fs dst)) q = lookup fs q"
proof -
  have ne: "q \<noteq> dst" using assms(1) by auto
  show ?thesis
  proof (cases "path_exists fs (backup_path dst)")
    case True
    then show ?thesis by (rule remove_existing_keeps[OF _ ne])
  next
    case False
    with assms(2) have nb: "\<not> prefix (backup_path dst) q" by simp
    show ?thesis
      using os_rename_apart[OF _ assms(1) nb] unlink_frame[OF _ ne]
      by (auto simp: remove_existing_def Let_def split: sum.splits)
  qed
qed

lemma after_removal_apart:
  assumes q: "\<not> prefix q dst"
  shows "lookup
     (fst (case mkdir_parents fa (butlast dst) of
             Inl e \<Rightarrow> (fa, la, Some e)
           | Inr fs2 \<Rightarrow>
               (case resolve fs2 src of
                  Inl e \<Rightarrow> (fs2, la, Some e)
                | Inr target \<Rightarrow>
                    (case os_symlink fs2 target dst of
                       Inl e \<Rightarrow> (fs2, la, Some e)
                     | Inr fs3 \<Rightarrow> (fs3, la @ lb, None))))) q
   = lookup fa q"
proof -
  have np: "\<not> prefix q (butlast dst)"
    using q by (metis prefix_order.trans prefixeq_butlast)
  have ne: "q \<noteq> dst" using q by auto
  show ?thesis
    using mkdir_parents_apart[OF _ np] os_symlink_frame[OF _ ne]
    by (auto split: sum.splits)
qed

lemma link_try_apart:
  assumes "\<not> prefix dst q" "\<not> prefix q dst"
    and "path_exists fs (backup_path dst) \<or> \<not> prefix (backup_path dst) q"
  shows "lookup (fst (link_try fs src rel dst)) q = lookup fs q"
proof (cases "remove_existing fs dst")
  case (fields fs1 l1 r1)
  have r: "lookup fs1 q = lookup fs q"
    using remove_existing_apart[OF assms(1,3)] fields by simp
  show ?thesis
  proof (cases r1)
    case None
    with fields after_removal_apart[OF assms(2), where fa = fs1 and la = l1 and src = src] r
    show ?thesis by (simp add: link_try_frame)
  next
    case (Some e)
    with fields r show ?thesis by (simp add: link_try_frame)
  qed
qed

lemma link_one_apart:
  assumes "\<not> prefix dst q" "\<not> prefix q dst"
    and "path_exists (st_fs st) (backup_path dst) \<or> \<not> prefix (backup_path dst) q"
  shows "lookup (st_fs (link_one root (rel, dst) st)) q = lookup (st_fs st) q"
  using link_try_apart[OF assms] by (simp add: link_one_fs)

text \<open>Paths below an entry that is incomparable with another path.\<close>

lemma below_apart:
  assumes "\<not> prefix d b" "\<not> prefix b d"
  shows "\<not> prefix d (b @ s)" "\<not> prefix (b @ s) d"
  using assms by (auto simp: prefix_append dest: append_prefixD)

lemma link_one_keeps_tree:
  assumes b: "lookup (st_fs st) b = Some e" "\<And>t. e \<noteq> Symlink t"
    and d: "\<not> prefix dst b" "\<not> prefix b dst"
    and k: "backup_path dst = b \<or> (\<not> prefix (backup_path dst) b \<and> \<not> prefix b (backup_path dst))"
  shows "lookup (st_fs (link_one root (rel, dst) st)) (b @ s) = lookup (st_fs st) (b @ s)"
proof -
  have "path_exists (st_fs st) (backup_path dst) \<or> \<not> prefix (backup_path dst) (b @ s)"
    using k path_exists_plain[OF b] below_apart(1) by blast
  with link_one_apart[OF below_apart[OF d]] show ?thesis by blast
qed

lemma loop_keeps_tree:
  assumes b: "lookup (st_fs st) b = Some e" "\<And>t. e \<noteq> Symlink t"
    and ms: "\<forall>m \<in> set ms. \<not> prefix (snd m) b \<and> \<not> prefix b (snd m)
        \<and> (backup_path (snd m) = b
            \<or> (\<not> prefix (backup_path (snd m)) b \<and> \<not> prefix b (backup_path (snd m))))"
  shows "lookup (st_fs (create_symlinks_loop root ms st)) (b @ s) = lookup (st_fs st) (b @ s)"
  using b(1) ms
proof (induction ms arbitrary: st)
  case Nil
  then show ?case by simp
next
  case (Cons m ms)
  obtain rel dst where m: "m = (rel, dst)" by (cases m)
  from Cons.prems(2) m have c: "\<not> prefix dst b" "\<not> prefix b dst"
    "backup_path dst = b \<or> (\<not> prefix (backup_path dst) b \<and> \<not> prefix b (backup_path dst))"
    by auto
  have step: "\<And>s. lookup (st_fs (link_one root (rel, dst) st)) (b @ s) = lookup (st_fs st) (b @ s)"
    using link_one_keeps_tree[OF Cons.prems(1) b(2) c] .
  from step[of "[]"] Cons.prems(1)
  have b': "lookup (st_fs (link_one root m st)) b = Some e" using m by simp
  from Cons.IH[OF b'] Cons.prems(2) step[of s] m show ?case by simp
qed


lemma backup_path_snoc:
  "backup_path (p @ [c]) = p @ [c @ ''.backup'']"
  "backup_path (p @ [a, c]) = p @ [a, c @ ''.backup'']"
  by (simp_all add: backup_path_def butlast_append)

lemma symlinks_set:
  "set (symlinks hm) =
     {([''ghostty''], hm @ [''.config'', ''ghostty'']),
      ([''fish''], hm @ [''.config'', ''fish'']),
      ([''starship''], hm @ [''.config'', ''starship'']),
      ([''nvim''], hm @ [''.config'', ''nvim'']),
      ([''brewfile''], hm @ [''.config'', ''brewfile'']),
      ([''tmux'', ''tmux.conf''], hm @ [''.tmux.conf''])}"
  by (simp add: symlinks_def)

lemma symlinks_targets:
  assumes "(rel, dst) \<in> set (symlinks hm)"
  shows "dst \<noteq> []"
  using assms unfolding symlinks_set by auto

lemma symlinks_apart:
  assumes "(rel, dst) \<in> set (symlinks hm)" "m \<in> set (symlinks hm)"
  shows "\<not> prefix (snd m) (backup_path dst) \<and> \<not> prefix (backup_path dst) (snd m)
        \<and> (backup_path (snd m) = backup_path dst
            \<or> (\<not> prefix (backup_path (snd m)) (backup_path dst)
                \<and> \<not> prefix (backup_path dst) (backup_path (snd m))))"
proof -
  from assms(1) have d: "dst \<in> {hm @ [''.config'', ''ghostty''], hm @ [''.config'', ''fish''],
      hm @ [''.config'', ''starship''], hm @ [''.config'', ''nvim''],
      hm @ [''.config'', ''brewfile''], hm @ [''.tmux.conf'']}"
    unfolding symlinks_set by auto
  from assms(2) have m: "snd m \<in> {hm @ [''.config'', ''ghostty''], hm @ [''.config'', ''fish''],
      hm @ [''.config'', ''starship''], hm @ [''.config'', ''nvim''],
      hm @ [''.config'', ''brewfile''], hm @ [''.tmux.conf'']}"
    unfolding symlinks_set by auto
  from d m show ?thesis
    by (elim insertE emptyE; simp add: backup_path_snoc)
qed

lemma run_keeps_tree:
  assumes m: "(rel, dst) \<in> set (symlinks hm)"
    and b: "lookup fs (backup_path dst) = Some e" "\<And>t. e \<noteq> Symlink t"
  shows "lookup (st_fs (create_symlinks root hm fs)) (backup_path dst @ s)
           = lookup fs (backup_path dst @ s)"
proof -
  let ?st = "\<lparr>st_fs = fs, success = True, st_log = []\<rparr>"
  have b': "lookup (st_fs ?st) (backup_path dst) = Some e" using b(1) by simp
  have "\<forall>m \<in> set (symlinks hm).
          \<not> prefix (snd m) (backup_path dst) \<and> \<not> prefix (backup_path dst) (snd m)
        \<and> (backup_path (snd m) = backup_path dst
            \<or> (\<not> prefix (backup_path (snd m)) (backup_path dst)
                \<and> \<not> prefix (backup_path dst) (backup_path (snd m))))"
    using symlinks_apart[OF m] by blast
  from loop_keeps_tree[OF b' b(2) this, of root s] show ?thesis
    by (simp add: create_symlinks_def)
qed

lemma first_run_backs_up:
  assumes ms: "symlinks hm = ms1 @ (rel, dst) # ms2"
    and st1: "st1 = create_symlinks_loop root ms1 \<lparr>st_fs = fs, success = True, st_log = []\<rparr>"
    and e: "lookup (st_fs st1) dst = Some e" "\<And>t. e \<noteq> Symlink t"
    and nb: "lookup (st_fs st1) (backup_path dst) = None"
    and par: "is_dir (st_fs st1) (butlast dst)"
    and src: "path_exists (st_fs st1) (root @ rel)"
  shows "lookup (st_fs (create_symlinks root hm fs)) (backup_path dst @ s)
           = lookup (st_fs st1) (dst @ s)"
proof -
  have m: "(rel, dst) \<in> set (symlinks hm)" using ms by simp
  have d: "dst \<noteq> []" using symlinks_targets[OF m] .
  let ?st2 = "link_one root (rel, dst) st1"
  have one: "\<And>s. lookup (st_fs ?st2) (backup_path dst @ s) = lookup (st_fs st1) (dst @ s)"
    using link_try_first_backup[OF d e nb par] src by (simp add: link_one_fs)
  from one[of "[]"] e(1) have b2: "lookup (st_fs ?st2) (backup_path dst) = Some e" by simp
  have rest: "\<forall>m \<in> set ms2.
          \<not> prefix (snd m) (backup_path dst) \<and> \<not> prefix (backup_path dst) (snd m)
        \<and> (backup_path (snd m) = backup_path dst
            \<or> (\<not> prefix (backup_path (snd m)) (backup_path dst)
                \<and> \<not> prefix (backup_path dst) (backup_path (snd m))))"
    using symlinks_apart[OF m] ms by simp
  have run: "create_symlinks root hm fs = create_symlinks_loop root ms2 ?st2"
    by (simp add: create_symlinks_def ms loop_append st1)
  from loop_keeps_tree[OF b2 e(2) rest, of root s] one[of s] run show ?thesis by simp
qed

lemma os_mkdir_kind:
  "os_mkdir fs p = Inr fs' \<Longrightarrow> lookup fs' q = lookup fs q \<or> lookup fs' q = Some Dir"
  by (auto simp: os_mkdir_def lookup_def bind_def split: option.splits)

lemma mkdir_exist_ok_kind:
  "mkdir_exist_ok fs p = Inr fs' \<Longrightarrow> lookup fs' q = lookup fs q \<or> lookup fs' q = Some Dir"
  by (auto simp: mkdir_exist_ok_def split: sum.splits error.splits if_splits
      dest: os_mkdir_kind)

lemma mkdir_rev_kind:
  "mkdir_rev fs rp = Inr fs' \<Longrightarrow> lookup fs' q = lookup fs q \<or> lookup fs' q = Some Dir"
proof (induction rp arbitrary: fs')
  case Nil
  then show ?case by simp
next
  case (Cons c rp)
  show ?case
  proof (cases "os_mkdir fs (rev (c # rp))")
    case (Inr fs1)
    with Cons.prems have "fs' = fs1" by simp
    with os_mkdir_kind[OF Inr] show ?thesis by simp
  next
    case (Inl e)
    show ?thesis
    proof (cases "e = FileNotFoundError")
      case True
      with Inl Cons.prems obtain fs1 where
        r: "mkdir_rev fs rp = Inr fs1" and m: "mkdir_exist_ok fs1 (rev (c # rp)) = Inr fs'"
        by (auto split: sum.splits)
      from Cons.IH[OF r] mkdir_exist_ok_kind[OF m, where q = q] show ?thesis by auto
    next
      case False
      with Inl Cons.prems have "fs' = fs"
        by (cases e) (auto split: if_splits)
      then show ?thesis by simp
    qed
  qed
qed

lemma mkdir_parents_no_link:
  "mkdir_parents fs p = Inr fs' \<Longrightarrow> \<not> is_symlink fs q \<Longrightarrow> \<not> is_symlink fs' q"
  using mkdir_rev_kind[of fs "rev p" fs' q]
  by (auto simp: mkdir_parents_def is_symlink_def)

lemma after_removal_no_link:
  assumes q: "q \<noteq> dst" and n: "\<not> is_symlink fa q"
  shows "\<not> is_symlink
     (fst (case mkdir_parents fa (butlast dst) of
             Inl e \<Rightarrow> (fa, la, Some e)
           | Inr fs2 \<Rightarrow>
               (case resolve fs2 src of
                  Inl e \<Rightarrow> (fs2, la, Some e)
                | Inr target \<Rightarrow>
                    (case os_symlink fs2 target dst of
                       Inl e \<Rightarrow> (fs2, la, Some e)
                     | Inr fs3 \<Rightarrow> (fs3, la @ lb, None))))) q"
proof (cases "mkdir_parents fa (butlast dst)")
  case (Inl e)
  with n show ?thesis by simp
next
  case (Inr fs2)
  have n2: "\<not> is_symlink fs2 q" using mkdir_parents_no_link[OF Inr n] .
  show ?thesis
  proof (cases "resolve fs2 src")
    case (Inl e)
    with Inr n2 show ?thesis by simp
  next
    case target: (Inr target)
    show ?thesis
    proof (cases "os_symlink fs2 target dst")
      case (Inl e)
      with Inr target n2 show ?thesis by simp
    next
      case fs3: (Inr fs3)
      from os_symlink_frame[OF fs3 q] n2 have "\<not> is_symlink fs3 q"
        by (simp add: is_symlink_def)
      with Inr target fs3 show ?thesis by simp
    qed
  qed
qed

lemma link_try_no_link:
  assumes "\<not> prefix dst q" "\<not> prefix (backup_path dst) q" "\<not> is_symlink fs q"
  shows "\<not> is_symlink (fst (link_try fs src rel dst)) q"
proof (cases "remove_existing fs dst")
  case (fields fs1 l1 r1)
  have ne: "q \<noteq> dst" using assms(1) by auto
  have "lookup fs1 q = lookup fs q"
    using remove_existing_apart[OF assms(1), of fs] assms(2) fields by simp
  with assms(3) have n1: "\<not> is_symlink fs1 q" by (simp add: is_symlink_def)
  show ?thesis
  proof (cases r1)
    case None
    with fields after_removal_no_link[OF ne n1, where la = l1 and src = src]
    show ?thesis by (simp add: link_try_frame)
  next
    case (Some e)
    with fields n1 show ?thesis by (simp add: link_try_frame)
  qed
qed

lemma link_one_no_link:
  assumes "\<not> prefix dst q" "\<not> prefix (backup_path dst) q" "\<not> is_symlink (st_fs st) q"
  shows "\<not> is_symlink (st_fs (link_one root (rel, dst) st)) q"
  using link_try_no_link[OF assms] assms(3) by (simp add: link_one_fs)

lemma loop_no_link:
  assumes "\<forall>m \<in> set ms. \<not> prefix (snd m) q \<and> \<not> prefix (backup_path (snd m)) q"
    and "\<not> is_symlink (st_fs st) q"
  shows "\<not> is_symlink (st_fs (create_symlinks_loop root ms st)) q"
  using assms
proof (induction ms arbitrary: st)
  case Nil
  then show ?case by simp
next
  case (Cons m ms)
  obtain rel dst where m: "m = (rel, dst)" by (cases m)
  from Cons.prems(1) m have "\<not> prefix dst q" "\<not> prefix (backup_path dst) q" by auto
  from link_one_no_link[OF this Cons.prems(2)] m
  have "\<not> is_symlink (st_fs (link_one root m st)) q" by simp
  with Cons.IH[of "link_one root m st"] Cons.prems(1) show ?case by simp
qed

lemma targets_above:
  assumes d: "(rel, dst) \<in> set (symlinks hm)" and q: "prefix q (butlast dst)"
    and m: "m \<in> set (symlinks hm)"
  shows "\<not> prefix (snd m) q \<and> \<not> prefix (backup_path (snd m)) q"
proof -
  from d have dd: "dst \<in> {hm @ [''.config'', ''ghostty''], hm @ [''.config'', ''fish''],
      hm @ [''.config'', ''starship''], hm @ [''.config'', ''nvim''],
      hm @ [''.config'', ''brewfile''], hm @ [''.tmux.conf'']}"
    unfolding symlinks_set by auto
  from m have mm: "snd m \<in> {hm @ [''.config'', ''ghostty''], hm @ [''.config'', ''fish''],
      hm @ [''.config'', ''starship''], hm @ [''.config'', ''nvim''],
      hm @ [''.config'', ''brewfile''], hm @ [''.tmux.conf'']}"
    unfolding symlinks_set by auto
  from dd q have up: "prefix q (hm @ [''.config''])"
    by (elim insertE emptyE) (auto simp: butlast_append intro: prefix_order.trans)
  have "\<not> prefix (snd m) (hm @ [''.config''])
        \<and> \<not> prefix (backup_path (snd m)) (hm @ [''.config''])"
    using mm by (elim insertE emptyE; simp add: backup_path_snoc)
  with up show ?thesis using prefix_order.trans by blast
qed

lemma run_keeps_plain_way:
  assumes d: "(rel, dst) \<in> set (symlinks hm)" and w: "plain_way fs dst"
  shows "plain_way (st_fs (create_symlinks root hm fs)) dst"
proof -
  have "\<not> is_symlink (st_fs (create_symlinks root hm fs)) q" if q: "prefix q (butlast dst)" for q
  proof -
    from w q have n: "\<not> is_symlink fs q"
      by (simp add: plain_way_def list_all_iff in_set_prefixes)
    have "\<forall>m \<in> set (symlinks hm). \<not> prefix (snd m) q \<and> \<not> prefix (backup_path (snd m)) q"
      using targets_above[OF d q] by blast
    from loop_no_link[OF this, of "\<lparr>st_fs = fs, success = True, st_log = []\<rparr>" root] n
    show ?thesis by (simp add: create_symlinks_def)
  qed
  then show ?thesis by (simp add: plain_way_def list_all_iff in_set_prefixes)
qed


lemma runs_keep_plain_way:
  assumes d: "(rel, dst) \<in> set (symlinks hm)" and w: "plain_way fs dst"
  shows "plain_way (((\<lambda>fs. st_fs (create_symlinks root hm fs)) ^^ n) fs) dst"
proof (induction n)
  case 0
  show ?case using w by simp
next
  case (Suc n)
  from run_keeps_plain_way[OF d Suc, of root] show ?case by simp
qed

text \<open>
  C1 (as stated: the program never makes a second backup of a path). The claim fails for
  \<open>setup_astronvim.py\<close>, whose backups carry a time stamp: a first run moves the
  user's directory to \<open>nvim.backup.20240101120000\<close> and clones into \<open>nvim\<close>, a second run
  moves the clone to \<open>nvim.backup.20240102093000\<close>, and both backups of the path exist.
\<close>

theorem backup_existing_counterexample:
  "\<not> isl (astronvim_run sample_clone ''20240101120000''
              [''Users'', ''me'', ''.config'', ''nvim''] nvim_disk)
   \<and> \<not> isl (astronvim_run sample_clone ''20240102093000''
              [''Users'', ''me'', ''.config'', ''nvim'']
              (projr (astronvim_run sample_clone ''20240101120000''
                        [''Users'', ''me'', ''.config'', ''nvim''] nvim_disk)))
   \<and> lookup (projr (astronvim_run sample_clone ''20240102093000''
              [''Users'', ''me'', ''.config'', ''nvim'']
              (projr (astronvim_run sample_clone ''20240101120000''
                        [''Users'', ''me'', ''.config'', ''nvim''] nvim_disk))))
         [''Users'', ''me'', ''.config'', ''nvim.backup.20240101120000''] = Some Dir
   \<and> lookup (projr (astronvim_run sample_clone ''20240102093000''
              [''Users'', ''me'', ''.config'', ''nvim'']
              (projr (astronvim_run sample_clone ''20240101120000''
                        [''Users'', ''me'', ''.config'', ''nvim''] nvim_disk))))
         [''Users'', ''me'', ''.config'', ''nvim.backup.20240102093000''] = Some Dir"
  by (simp add: astronvim_run_def backup_existing_def clone_astronvim_def sample_clone_def
      nvim_disk_def fs_eval)

text \<open>
  C1 (amended): in \<open>create_symlinks\<close> of \<open>setup.py\<close>, on a file system in which no
  directory above a declared target or source is a symbolic link and no source is a
  link itself (and with no operation refused for lack of permission), take one of the
  declared mappings whose source exists and whose target holds a file or a directory,
  with no entry at \<open>target.backup\<close>, when the first run reaches it. That run moves the
  occupant, with everything below it, to \<open>target.backup\<close>, and after any number of
  consecutive runs of \<open>create_symlinks\<close> the backup still holds exactly that content: no
  run makes a second backup, replaces the backup or removes it. The directories above
  the targets stay free of links through all these runs.
\<close>

theorem backup_made_once:
  assumes ms: "symlinks hm = ms1 @ (rel, dst) # ms2"
    and ways: "\<forall>m \<in> set (symlinks hm).
                 plain_way fs (snd m) \<and> plain_way fs (root @ fst m)
                 \<and> \<not> is_symlink fs (root @ fst m)"
    and st1: "st1 = create_symlinks_loop root ms1 \<lparr>st_fs = fs, success = True, st_log = []\<rparr>"
    and e: "lookup (st_fs st1) dst = Some e" "e = Dir \<or> (\<exists>c. e = File c)"
    and nb: "lookup (st_fs st1) (backup_path dst) = None"
    and par: "is_dir (st_fs st1) (butlast dst)"
    and src: "path_exists (st_fs st1) (root @ rel)"
  shows "lookup (((\<lambda>fs. st_fs (create_symlinks root hm fs)) ^^ Suc n) fs)
                (backup_path dst @ s)
           = lookup (st_fs st1) (dst @ s)
         \<and> (\<forall>m \<in> set (symlinks hm).
               plain_way (((\<lambda>fs. st_fs (create_symlinks root hm fs)) ^^ Suc n) fs) (snd m))"
proof -
  have ns: "\<And>t. e \<noteq> Symlink t" using e(2) by auto
  have m: "(rel, dst) \<in> set (symlinks hm)" using ms by simp
  let ?run = "\<lambda>fs. st_fs (create_symlinks root hm fs)"
  have inv: "\<forall>s. lookup ((?run ^^ Suc n) fs) (backup_path dst @ s) = lookup (st_fs st1) (dst @ s)"
  proof (induction n)
    case 0
    show ?case using first_run_backs_up[OF ms st1 e(1) ns nb par src] by simp
  next
    case (Suc n)
    let ?fs = "(?run ^^ Suc n) fs"
    from Suc have "lookup ?fs (backup_path dst @ []) = lookup (st_fs st1) (dst @ [])" by blast
    hence b: "lookup ?fs (backup_path dst) = Some e" using e(1) by simp
    have "(?run ^^ Suc (Suc n)) fs = ?run ?fs" by simp
    with run_keeps_tree[OF m b ns, of root] Suc show ?case by simp
  qed
  have "plain_way ((?run ^^ Suc n) fs) (snd k)" if k: "k \<in> set (symlinks hm)" for k
  proof -
    from k have "(fst k, snd k) \<in> set (symlinks hm)" by simp
    moreover from ways k have "plain_way fs (snd k)" by blast
    ultimately show ?thesis by (rule runs_keep_plain_way)
  qed
  with inv show ?thesis by blast
qed

theorem backup_made_once_witness:
  "lookup (((\<lambda>fs. st_fs (create_symlinks [''Users'', ''me'', ''dotfiles''] [''Users'', ''me''] fs))
              ^^ Suc 2) foreign_disk)
          (backup_path [''Users'', ''me'', ''.config'', ''fish''] @ [''config.fish''])
     = Some (File ''set fish_greeting'')"
proof -
  let ?root = "[''Users'', ''me'', ''dotfiles'']"
  let ?home = "[''Users'', ''me'']"
  let ?dst = "[''Users'', ''me'', ''.config'', ''fish'']"
  let ?ms1 = "[([''ghostty''], [''Users'', ''me'', ''.config'', ''ghostty''])]"
  let ?ms2 = "[([''starship''], [''Users'', ''me'', ''.config'', ''starship'']),
       ([''nvim''], [''Users'', ''me'', ''.config'', ''nvim'']),
       ([''brewfile''], [''Users'', ''me'', ''.config'', ''brewfile'']),
       ([''tmux'', ''tmux.conf''], [''Users'', ''me'', ''.tmux.conf''])]"
  have ms: "symlinks ?home = ?ms1 @ ([''fish''], ?dst) # ?ms2"
    by (simp add: symlinks_def)
  have ways: "\<forall>m \<in> set (symlinks ?home).
                 plain_way foreign_disk (snd m) \<and> plain_way foreign_disk (?root @ fst m)
                 \<and> \<not> is_symlink foreign_disk (?root @ fst m)"
    by (simp add: symlinks_def plain_way_def foreign_disk_def example_disk_def
        is_symlink_def lookup_def)
  have st1: "create_symlinks_loop ?root ?ms1 \<lparr>st_fs = foreign_disk, success = True, st_log = []\<rparr>
     = \<lparr>st_fs = foreign_disk, success = True,
        st_log = [(WARNING, ''Source not found: /Users/me/dotfiles/ghostty'')]\<rparr>"
    by (simp add: foreign_disk_def example_disk_def fs_eval link_eval)
  let ?st1 = "\<lparr>st_fs = foreign_disk, success = True,
        st_log = [(WARNING, ''Source not found: /Users/me/dotfiles/ghostty'')]\<rparr>"
  have h: "lookup (st_fs ?st1) ?dst = Some Dir" "Dir = Dir \<or> (\<exists>c. Dir = File c)"
    "lookup (st_fs ?st1) (backup_path ?dst) = None"
    "is_dir (st_fs ?st1) (butlast ?dst)"
    "path_exists (st_fs ?st1) (?root @ [''fish''])"
    by (simp_all add: foreign_disk_def example_disk_def fs_eval)
  have v: "lookup (st_fs ?st1) (?dst @ [''config.fish'']) = Some (File ''set fish_greeting'')"
    by (simp add: foreign_disk_def example_disk_def fs_eval)
  from backup_made_once [OF ms ways st1[symmetric] h, of 2 "[''config.fish'']"] v
  show ?thesis by simp
qed

end
